theory Spec2Isabelle
  imports Main "HOL-Library.Word"
begin

section \<open>The git-status polling hook \<^verbatim>\<open>useGitStatus\<close>\<close>

text \<open>
  This theory embeds \<^verbatim>\<open>src/features/git/hooks/useGitStatus.ts\<close>: the value
  equality that suppresses renders, the sticky branch-name rule, the two completion
  handlers of \<^verbatim>\<open>refresh\<close>, and the two effects that react to a change of the
  active workspace. The mutable cells of the hook (the \<^verbatim>\<open>useState\<close> value and the
  three \<^verbatim>\<open>useRef\<close> cells) are the fields of one record that every operation
  takes and returns.
\<close>

subsection \<open>Strings\<close>

text \<open>
  A JavaScript string is a sequence of 16-bit code units. \<open>js\<close> writes an ASCII literal
  as such a sequence.
\<close>

type_synonym js_string = "16 word list"

definition js :: "string \<Rightarrow> js_string" where
  "js = map of_char"

text \<open>
  \<^verbatim>\<open>String.prototype.trim\<close> removes, from both ends, the code units that ECMAScript
  classes as WhiteSpace (TAB, VT, FF, ZWNBSP and the Unicode space separators) or as
  LineTerminator (LF, CR, LS, PS).
\<close>

definition isWhiteSpace :: "16 word \<Rightarrow> bool" where
  "isWhiteSpace c =
     (c \<in> {0x9, 0xA, 0xB, 0xC, 0xD, 0x20, 0xA0, 0x1680, 0x2028, 0x2029, 0x202F, 0x205F,
            0x3000, 0xFEFF}
      \<or> (0x2000 \<le> c \<and> c \<le> 0x200A))"

definition trim :: "js_string \<Rightarrow> js_string" where
  "trim s = rev (dropWhile isWhiteSpace (rev (dropWhile isWhiteSpace s)))"

text \<open>A string is trimmed when neither its first nor its last code unit is white space.\<close>

definition trimmed_string :: "js_string \<Rightarrow> bool" where
  "trimmed_string s = (case s of [] \<Rightarrow> True | c # _ \<Rightarrow> \<not> isWhiteSpace c \<and> \<not> isWhiteSpace (last s))"

text \<open>The sentinel \<^verbatim>\<open>"unknown"\<close>.\<close>

definition unknown :: js_string where
  "unknown = js ''unknown''"

text \<open>
  \<^verbatim>\<open>x && x !== "unknown"\<close> for \<^verbatim>\<open>x: string | undefined\<close>: defined, not empty
  (the empty string is falsy) and not the sentinel.
\<close>

definition known_branch :: "js_string option \<Rightarrow> bool" where
  "known_branch x = (case x of None \<Rightarrow> False | Some t \<Rightarrow> t \<noteq> [] \<and> t \<noteq> unknown)"

subsection \<open>Data\<close>

text \<open>
  Modelled from the spec: the type \<^verbatim>\<open>GitFileStatus\<close> is imported from
  \<^verbatim>\<open>types\<close>, which is not among the sources. The hook reads its fields
  \<^verbatim>\<open>path\<close>, \<^verbatim>\<open>status\<close>, \<^verbatim>\<open>additions\<close> and \<^verbatim>\<open>deletions\<close>; the spec gives
  a string path, an opaque change kind and two integer counters. The counters are of
  type \<^verbatim>\<open>number\<close> and hold integers, so they are \<open>int\<close> here (\<^verbatim>\<open>NaN\<close> is outside
  the model).
\<close>

record GitFileStatus =
  path :: js_string
  status :: js_string
  additions :: int
  deletions :: int

record GitStatusState =
  branchName :: js_string
  files :: "GitFileStatus list"
  stagedFiles :: "GitFileStatus list"
  unstagedFiles :: "GitFileStatus list"
  totalAdditions :: int
  totalDeletions :: int
  error :: "js_string option"

text \<open>
  Modelled from the spec: what \<^verbatim>\<open>getGitStatus\<close> (imported from
  \<^verbatim>\<open>services/tauri\<close>, not among the sources) resolves to. The hook spreads it into a
  \<^verbatim>\<open>GitStatusState\<close> and passes its \<^verbatim>\<open>branchName\<close> as
  \<^verbatim>\<open>string | undefined\<close>.
\<close>

record RawStatus =
  raw_branchName :: "js_string option"
  raw_files :: "GitFileStatus list"
  raw_stagedFiles :: "GitFileStatus list"
  raw_unstagedFiles :: "GitFileStatus list"
  raw_totalAdditions :: int
  raw_totalDeletions :: int

definition emptyStatus :: GitStatusState where
  "emptyStatus =
     \<lparr>branchName = [], files = [], stagedFiles = [], unstagedFiles = [],
      totalAdditions = 0, totalDeletions = 0, error = None\<rparr>"

subsection \<open>Value equality of snapshots\<close>

text \<open>
  The \<^verbatim>\<open>for\<close> loop of \<^verbatim>\<open>sameFileStatusLists\<close>, from \<open>index\<close> on. It runs
  only after the lengths were found equal, so \<open>b ! index\<close> is in range.
\<close>

function sameFileStatusLists_loop :: "GitFileStatus list \<Rightarrow> GitFileStatus list \<Rightarrow> nat \<Rightarrow> bool" where
  "sameFileStatusLists_loop a b index =
     (if index < length a then
        (let left = a ! index; right = b ! index in
         if path left \<noteq> path right
            \<or> status left \<noteq> status right
            \<or> additions left \<noteq> additions right
            \<or> deletions left \<noteq> deletions right
         then False
         else sameFileStatusLists_loop a b (index + 1))
      else True)"
  by pat_completeness auto
termination
  by (relation "measure (\<lambda>(a, b, index). length a - index)") auto

declare sameFileStatusLists_loop.simps [simp del]

text \<open>
  The source first returns true when both arguments are the same array object. On one
  array the loop returns true as well, so in a model of values the shortcut is not a
  case of its own.
\<close>

definition sameFileStatusLists :: "GitFileStatus list \<Rightarrow> GitFileStatus list \<Rightarrow> bool" where
  "sameFileStatusLists a b =
     (if length a \<noteq> length b then False else sameFileStatusLists_loop a b 0)"

definition sameStatusState :: "GitStatusState \<Rightarrow> GitStatusState \<Rightarrow> bool" where
  "sameStatusState a b =
     (branchName a = branchName b
      \<and> error a = error b
      \<and> totalAdditions a = totalAdditions b
      \<and> totalDeletions a = totalDeletions b
      \<and> sameFileStatusLists (files a) (files b)
      \<and> sameFileStatusLists (stagedFiles a) (stagedFiles b)
      \<and> sameFileStatusLists (unstagedFiles a) (unstagedFiles b))"

text \<open>
  The equality as section 4.1 of the specification words it: same length, and at each
  index the same path, status, additions and deletions.
\<close>

definition spec_same_files :: "GitFileStatus list \<Rightarrow> GitFileStatus list \<Rightarrow> bool" where
  "spec_same_files a b =
     (length a = length b
      \<and> (\<forall>i < length a.
            path (a ! i) = path (b ! i) \<and> status (a ! i) = status (b ! i)
            \<and> additions (a ! i) = additions (b ! i) \<and> deletions (a ! i) = deletions (b ! i)))"

definition spec_same_status :: "GitStatusState \<Rightarrow> GitStatusState \<Rightarrow> bool" where
  "spec_same_status a b =
     (branchName a = branchName b \<and> error a = error b
      \<and> totalAdditions a = totalAdditions b \<and> totalDeletions a = totalDeletions b
      \<and> spec_same_files (files a) (files b)
      \<and> spec_same_files (stagedFiles a) (stagedFiles b)
      \<and> spec_same_files (unstagedFiles a) (unstagedFiles b))"

subsection \<open>The sticky branch name\<close>

definition resolveBranchName :: "js_string option \<Rightarrow> GitStatusState option \<Rightarrow> js_string" where
  "resolveBranchName incoming cached =
     (let trimmed = map_option trim incoming in
      if known_branch trimmed then (case trimmed of Some t \<Rightarrow> t | None \<Rightarrow> [])
      else
        let cachedBranch = map_option (\<lambda>c. trim (branchName c)) cached in
        if known_branch cachedBranch then (case cachedBranch of Some t \<Rightarrow> t | None \<Rightarrow> [])
        else (case trimmed of Some t \<Rightarrow> t | None \<Rightarrow> []))"

subsection \<open>The cells of the hook\<close>

text \<open>
  What a rejected promise carries: an \<^verbatim>\<open>Error\<close> object with its message, or any
  other value with its conversion by \<^verbatim>\<open>String\<close>.
\<close>

datatype thrown = ErrorObject js_string | OtherValue js_string

fun error_message :: "thrown \<Rightarrow> js_string" where
  "error_message (ErrorObject message) = message"
| "error_message (OtherValue converted) = converted"

datatype 'a settled = Fulfilled 'a | Rejected thrown

text \<open>
  \<open>statusState\<close> is the \<^verbatim>\<open>useState\<close> value that the hook returns as
  \<^verbatim>\<open>status\<close>; \<open>requestIdRef\<close>, \<open>workspaceIdRef\<close> and \<open>cachedStatusRef\<close> are
  the three \<^verbatim>\<open>useRef\<close> cells. \<open>workspaceId\<close> is the active workspace id of the
  last render. \<open>inflight\<close> holds the requests that \<^verbatim>\<open>refresh\<close> has issued and that
  have not settled, each with the request number and the workspace id its handlers
  closed over. \<open>interval\<close> is the workspace id that the running
  \<^verbatim>\<open>setInterval\<close> callback closed over, if a timer runs. \<open>console\<close> collects what
  \<^verbatim>\<open>console.error\<close> was given.
\<close>

record hook =
  statusState :: GitStatusState
  requestIdRef :: nat
  workspaceIdRef :: "js_string option"
  cachedStatusRef :: "js_string \<rightharpoonup> GitStatusState"
  workspaceId :: "js_string option"
  inflight :: "(nat \<times> js_string) list"
  interval :: "js_string option"
  console :: "thrown list"

text \<open>\<^verbatim>\<open>!workspaceId\<close>: \<^verbatim>\<open>null\<close> and the empty string are falsy.\<close>

fun falsy :: "js_string option \<Rightarrow> bool" where
  "falsy None = True"
| "falsy (Some w) = (w = [])"

text \<open>\<^verbatim>\<open>setStatus((prev) => (sameStatusState(prev, nextStatus) ? prev : nextStatus))\<close>\<close>

definition setStatus_if_changed :: "GitStatusState \<Rightarrow> hook \<Rightarrow> hook" where
  "setStatus_if_changed nextStatus s =
     s\<lparr>statusState := (if sameStatusState (statusState s) nextStatus then statusState s
                        else nextStatus)\<rparr>"

subsection \<open>\<^verbatim>\<open>refresh\<close>\<close>

text \<open>
  The synchronous part of \<^verbatim>\<open>refresh\<close>, for a callback that closed over
  \<open>closure_workspaceId\<close>: it takes the next request number and issues the request.
\<close>

definition refresh :: "js_string option \<Rightarrow> hook \<Rightarrow> hook" where
  "refresh closure_workspaceId s =
     (case closure_workspaceId of
        None \<Rightarrow> s\<lparr>statusState := emptyStatus\<rparr>
      | Some w \<Rightarrow>
          if falsy (Some w) then s\<lparr>statusState := emptyStatus\<rparr>
          else
            let requestId = requestIdRef s + 1 in
            s\<lparr>requestIdRef := requestId, inflight := inflight s @ [(requestId, w)]\<rparr>)"

text \<open>
  The \<^verbatim>\<open>nextStatus\<close> of the \<^verbatim>\<open>.then\<close> handler, from the resolved data and
  the cache slot of the workspace: the data spread, with the resolved branch name and
  no error.
\<close>

definition nextStatus_fulfilled :: "RawStatus \<Rightarrow> GitStatusState option \<Rightarrow> GitStatusState" where
  "nextStatus_fulfilled data cached =
     (let resolvedBranchName = resolveBranchName (raw_branchName data) cached in
      \<lparr>branchName = resolvedBranchName, files = raw_files data,
       stagedFiles = raw_stagedFiles data, unstagedFiles = raw_unstagedFiles data,
       totalAdditions = raw_totalAdditions data, totalDeletions = raw_totalDeletions data,
       error = None\<rparr>)"

text \<open>
  The \<^verbatim>\<open>nextStatus\<close> of the \<^verbatim>\<open>.catch\<close> handler, from the rejection and the
  cache slot.
\<close>

definition nextStatus_rejected :: "thrown \<Rightarrow> GitStatusState option \<Rightarrow> GitStatusState" where
  "nextStatus_rejected err cached =
     (let message = error_message err in
      case cached of
        Some c \<Rightarrow> c\<lparr>error := Some message\<rparr>
      | None \<Rightarrow> emptyStatus\<lparr>branchName := unknown, error := Some message\<rparr>)"

text \<open>The \<^verbatim>\<open>.then\<close> handler of the request \<open>requestId\<close> for workspace \<open>w\<close>.\<close>

definition on_fulfilled :: "nat \<Rightarrow> js_string \<Rightarrow> RawStatus \<Rightarrow> hook \<Rightarrow> hook" where
  "on_fulfilled requestId w data s =
     (if requestIdRef s \<noteq> requestId \<or> workspaceIdRef s \<noteq> Some w then s
      else
        let cached = cachedStatusRef s w;
            nextStatus = nextStatus_fulfilled data cached
        in (setStatus_if_changed nextStatus s)
             \<lparr>cachedStatusRef := (cachedStatusRef s)(w \<mapsto> nextStatus)\<rparr>)"

text \<open>
  The \<^verbatim>\<open>.catch\<close> handler of the same request. It logs before it checks whether
  the request is still the current one.
\<close>

definition on_rejected :: "nat \<Rightarrow> js_string \<Rightarrow> thrown \<Rightarrow> hook \<Rightarrow> hook" where
  "on_rejected requestId w err s =
     (let s1 = s\<lparr>console := console s @ [err]\<rparr> in
      if requestIdRef s1 \<noteq> requestId \<or> workspaceIdRef s1 \<noteq> Some w then s1
      else
        let cached = cachedStatusRef s1 w;
            nextStatus = nextStatus_rejected err cached
        in setStatus_if_changed nextStatus s1)"

text \<open>
  Promise chaining. A handler of this hook is a total function on the cells: the
  \<^verbatim>\<open>.then\<close> handler runs on fulfilment and passes a rejection on, the
  \<^verbatim>\<open>.catch\<close> handler runs on rejection and fulfils the chain.
\<close>

definition promise_then :: "('a \<Rightarrow> hook \<Rightarrow> hook) \<Rightarrow> hook \<times> 'a settled \<Rightarrow> hook \<times> unit settled" where
  "promise_then handler p =
     (case p of
        (s, Fulfilled v) \<Rightarrow> (handler v s, Fulfilled ())
      | (s, Rejected err) \<Rightarrow> (s, Rejected err))"

definition promise_catch :: "(thrown \<Rightarrow> hook \<Rightarrow> hook) \<Rightarrow> hook \<times> unit settled \<Rightarrow> hook \<times> unit settled" where
  "promise_catch handler p =
     (case p of
        (s, Fulfilled v) \<Rightarrow> (s, Fulfilled v)
      | (s, Rejected err) \<Rightarrow> (handler err s, Fulfilled ()))"

text \<open>
  \<^verbatim>\<open>getGitStatus(workspaceId).then(...).catch(...)\<close> once the external call has
  settled with \<open>outcome\<close>: the cells afterwards, and how the promise that
  \<^verbatim>\<open>refresh\<close> returned settles.
\<close>

definition settle_refresh :: "nat \<Rightarrow> js_string \<Rightarrow> RawStatus settled \<Rightarrow> hook \<Rightarrow> hook \<times> unit settled" where
  "settle_refresh requestId w outcome s =
     promise_catch (on_rejected requestId w) (promise_then (on_fulfilled requestId w) (s, outcome))"

subsection \<open>The effects\<close>

text \<open>The effect on \<^verbatim>\<open>[workspaceId]\<close>.\<close>

definition effect_workspace :: "js_string option \<Rightarrow> hook \<Rightarrow> hook" where
  "effect_workspace w s =
     (if workspaceIdRef s \<noteq> w then
        let s1 = s\<lparr>workspaceIdRef := w, requestIdRef := requestIdRef s + 1\<rparr> in
        (case w of
           None \<Rightarrow> s1\<lparr>statusState := emptyStatus\<rparr>
         | Some b \<Rightarrow>
             if falsy (Some b) then s1\<lparr>statusState := emptyStatus\<rparr>
             else
               (case cachedStatusRef s1 b of
                  Some cached \<Rightarrow> s1\<lparr>statusState := cached\<rparr>
                | None \<Rightarrow> s1\<lparr>statusState := emptyStatus\<rparr>))
      else s)"

text \<open>
  The effect on \<^verbatim>\<open>[refresh, workspaceId]\<close>: one fetch at once, then the timer of
  5000 ms whose callback is the same \<^verbatim>\<open>fetchStatus\<close>.
\<close>

definition REFRESH_INTERVAL_MS :: nat where
  "REFRESH_INTERVAL_MS = 5000"

definition effect_poll :: "js_string option \<Rightarrow> hook \<Rightarrow> hook" where
  "effect_poll w s =
     (if falsy w then s\<lparr>statusState := emptyStatus\<rparr>
      else (refresh w s)\<lparr>interval := w\<rparr>)"

text \<open>The cleanup of that effect: \<^verbatim>\<open>window.clearInterval(interval)\<close>.\<close>

definition cleanup_poll :: "hook \<Rightarrow> hook" where
  "cleanup_poll s = s\<lparr>interval := None\<rparr>"

subsection \<open>The hook as a transition system\<close>

text \<open>
  The first render with active workspace \<open>w\<close>, with its effects: the cells start at
  their initial values, \<^verbatim>\<open>workspaceIdRef\<close> at the id of the first render.
\<close>

definition initial_cells :: "js_string option \<Rightarrow> hook" where
  "initial_cells w =
     \<lparr>statusState = emptyStatus, requestIdRef = 0, workspaceIdRef = w,
      cachedStatusRef = Map.empty, workspaceId = w, inflight = [], interval = None,
      console = []\<rparr>"

definition mount :: "js_string option \<Rightarrow> hook" where
  "mount w = effect_poll w (effect_workspace w (initial_cells w))"

text \<open>
  A later render with active workspace \<open>w\<close>, taken as one transition together with the
  effects it schedules. Both effects depend on \<^verbatim>\<open>workspaceId\<close> only
  (\<^verbatim>\<open>refresh\<close> changes exactly when \<^verbatim>\<open>workspaceId\<close> does), so they run when the
  id differs from the one of the render before: first the cleanup, then the effects in
  the order of the source. This is a call of the hook followed at once by its effects;
  the call and the effects as separate steps, with the states in between, follow
  below.
\<close>

definition render :: "js_string option \<Rightarrow> hook \<Rightarrow> hook" where
  "render w s =
     (if workspaceId s = w then s
      else effect_poll w (effect_workspace w (cleanup_poll (s\<lparr>workspaceId := w\<rparr>))))"

text \<open>
  What can happen to a mounted hook: a render, a tick of the timer, a call of a
  \<^verbatim>\<open>refresh\<close> callback that some render returned (it may be an old one, closed
  over another workspace id), and the settling of a request in flight.
\<close>

datatype event =
    Render "js_string option"
  | Tick
  | Refresh "js_string option"
  | Settle nat js_string "RawStatus settled"

fun step :: "event \<Rightarrow> hook \<Rightarrow> hook" where
  "step (Render w) s = render w s"
| "step Tick s = (case interval s of None \<Rightarrow> s | Some w \<Rightarrow> refresh (Some w) s)"
| "step (Refresh w) s = refresh w s"
| "step (Settle requestId w outcome) s =
     (if (requestId, w) \<in> set (inflight s)
      then fst (settle_refresh requestId w outcome
                  (s\<lparr>inflight := remove1 (requestId, w) (inflight s)\<rparr>))
      else s)"

inductive reachable :: "hook \<Rightarrow> bool" where
  reachable_mount: "reachable (mount w)"
| reachable_step: "reachable s \<Longrightarrow> reachable (step e s)"

text \<open>
  The displayed status is derived from one cache slot: it is the empty default, or the
  slot's snapshot, or that snapshot with an error message, or (for an empty slot) the
  default with branch \<^verbatim>\<open>"unknown"\<close> and an error message.
\<close>

definition derived_from :: "GitStatusState option \<Rightarrow> GitStatusState \<Rightarrow> bool" where
  "derived_from slot st =
     (st = emptyStatus
      \<or> (case slot of
           None \<Rightarrow> error st \<noteq> None \<and> st = emptyStatus\<lparr>branchName := unknown, error := error st\<rparr>
         | Some c \<Rightarrow> st = c \<or> (error st \<noteq> None \<and> st = c\<lparr>error := error st\<rparr>)))"

definition displays_active_only :: "hook \<Rightarrow> bool" where
  "displays_active_only s =
     (case workspaceIdRef s of
        None \<Rightarrow> statusState s = emptyStatus
      | Some b \<Rightarrow> derived_from (cachedStatusRef s b) (statusState s))"

subsection \<open>The render and its effects as separate steps\<close>

text \<open>
  React calls the body of the hook for a render and runs the effects of that render
  afterwards. The body reads the \<^verbatim>\<open>useState\<close> value and returns it as
  \<^verbatim>\<open>status\<close>; it writes none of the cells, it only schedules the effects whose
  dependency \<^verbatim>\<open>workspaceId\<close> differs from the render before. The effects then run
  in one batch: the cleanup of the timer effect, the effect on
  \<^verbatim>\<open>[workspaceId]\<close>, the timer effect.
\<close>

definition run_effects :: "hook \<Rightarrow> hook" where
  "run_effects s =
     effect_poll (workspaceId s) (effect_workspace (workspaceId s) (cleanup_poll s))"

text \<open>The cells together with the fact that the effects of the last render have not run yet.\<close>

record rendering =
  cells :: hook
  effects_pending :: bool

definition flush_effects :: "rendering \<Rightarrow> rendering" where
  "flush_effects p =
     (if effects_pending p then \<lparr>cells = run_effects (cells p), effects_pending = False\<rparr>
      else p)"

text \<open>
  The first call of the hook: it returns the initial \<^verbatim>\<open>useState\<close> value and
  schedules both effects.
\<close>

definition first_render :: "js_string option \<Rightarrow> GitStatusState \<times> rendering" where
  "first_render activeWorkspaceId =
     (emptyStatus, \<lparr>cells = initial_cells activeWorkspaceId, effects_pending = True\<rparr>)"

text \<open>
  A later call of the hook with the id \<^verbatim>\<open>activeWorkspace?.id ?? null\<close>. React
  runs the effects still pending from the render before, then the body: the returned
  \<^verbatim>\<open>status\<close> is the \<^verbatim>\<open>useState\<close> value as it is at that moment, and the
  effects are scheduled when the id has changed. (The returned \<^verbatim>\<open>refresh\<close> is
  the callback closed over this id; its calls are the events \<open>RefreshCall\<close> below.)
\<close>

definition useGitStatus :: "js_string option \<Rightarrow> rendering \<Rightarrow> GitStatusState \<times> rendering" where
  "useGitStatus activeWorkspaceId p =
     (let p0 = flush_effects p;
          s = cells p0
      in (statusState s,
          if workspaceId s = activeWorkspaceId then p0
          else \<lparr>cells = s\<lparr>workspaceId := activeWorkspaceId\<rparr>, effects_pending = True\<rparr>))"

text \<open>
  The events of the hook with renders and effects apart. Ticks, calls of
  \<^verbatim>\<open>refresh\<close> and settling requests act on the cells as before, also between a
  render and its effects.
\<close>

datatype phased_event =
    HookCall "js_string option"
  | EffectsRun
  | TimerTick
  | RefreshCall "js_string option"
  | RequestSettled nat js_string "RawStatus settled"

fun phased_step :: "phased_event \<Rightarrow> rendering \<Rightarrow> rendering" where
  "phased_step (HookCall w) p = snd (useGitStatus w p)"
| "phased_step EffectsRun p = flush_effects p"
| "phased_step TimerTick p = p\<lparr>cells := step Tick (cells p)\<rparr>"
| "phased_step (RefreshCall c) p = p\<lparr>cells := step (Refresh c) (cells p)\<rparr>"
| "phased_step (RequestSettled requestId w outcome) p =
     p\<lparr>cells := step (Settle requestId w outcome) (cells p)\<rparr>"

inductive phased_reachable :: "rendering \<Rightarrow> bool" where
  phased_first: "phased_reachable (snd (first_render w))"
| phased_next: "phased_reachable p \<Longrightarrow> phased_reachable (phased_step e p)"

subsection \<open>Invariants of the cells\<close>

text \<open>
  Every cached snapshot is free of an error and has a trimmed branch name, the empty id
  has no slot, and no request in flight is for the empty id.
\<close>

definition cache_ok :: "hook \<Rightarrow> bool" where
  "cache_ok s =
     ((\<forall>w c. cachedStatusRef s w = Some c \<longrightarrow> error c = None \<and> trimmed_string (branchName c))
      \<and> cachedStatusRef s [] = None
      \<and> (\<forall>r \<in> set (inflight s). snd r \<noteq> []))"

text \<open>
  Besides, \<^verbatim>\<open>workspaceIdRef\<close> holds the id of the last render, the displayed
  status is derived from the slot of that id, and the timer runs exactly while that id
  is truthy.
\<close>

definition cells_ok :: "hook \<Rightarrow> bool" where
  "cells_ok s =
     (cache_ok s \<and> workspaceIdRef s = workspaceId s \<and> displays_active_only s
      \<and> interval s = (if falsy (workspaceId s) then None else workspaceId s))"

text \<open>
  With renders and effects apart, the cache and the displayed status keep their
  invariants in every state; \<^verbatim>\<open>workspaceIdRef\<close> holds the id of the last render
  once the effects of that render have run.
\<close>

definition display_ok :: "hook \<Rightarrow> bool" where
  "display_ok s = (cache_ok s \<and> displays_active_only s)"

definition phased_ok :: "rendering \<Rightarrow> bool" where
  "phased_ok p =
     (display_ok (cells p)
      \<and> (\<not> effects_pending p \<longrightarrow> workspaceIdRef (cells p) = workspaceId (cells p)))"

subsection \<open>A run of the hook\<close>

text \<open>
  Two workspace ids, one changed file and a resolved status, and a short run: the hook is
  mounted on workspace A (\<open>run_mounted\<close>), its first request succeeds
  (\<open>run_loaded\<close>), the timer ticks (\<open>run_polling\<close>), and the active workspace
  changes to B while that second request is in flight (\<open>run_switched\<close>).
\<close>

definition ws_A :: js_string where
  "ws_A = js ''A''"

definition ws_B :: js_string where
  "ws_B = js ''B''"

definition file_a :: GitFileStatus where
  "file_a = \<lparr>path = js ''a.ts'', status = js ''modified'', additions = 3, deletions = 1\<rparr>"

definition raw_main :: RawStatus where
  "raw_main =
     \<lparr>raw_branchName = Some (js ''main''), raw_files = [file_a], raw_stagedFiles = [],
      raw_unstagedFiles = [file_a], raw_totalAdditions = 3, raw_totalDeletions = 1\<rparr>"

definition snapshot_main :: GitStatusState where
  "snapshot_main =
     \<lparr>branchName = js ''main'', files = [file_a], stagedFiles = [],
      unstagedFiles = [file_a], totalAdditions = 3, totalDeletions = 1, error = None\<rparr>"

definition run_mounted :: hook where
  "run_mounted = mount (Some ws_A)"

definition run_loaded :: hook where
  "run_loaded = step (Settle 1 ws_A (Fulfilled raw_main)) run_mounted"

definition run_polling :: hook where
  "run_polling = step Tick run_loaded"

definition run_switched :: hook where
  "run_switched = step (Render (Some ws_B)) run_polling"

text \<open>The same resolved status with white space around the branch name.\<close>

definition raw_padded :: RawStatus where
  "raw_padded = raw_main\<lparr>raw_branchName := Some (js ''  main '')\<rparr>"

text \<open>
  The run continued with renders and effects apart: the hook shows workspace A with its
  second request in flight (\<open>rendering_polling\<close>), and is called with workspace B
  (\<open>rendering_switching\<close>), the effects of that render not yet run.
\<close>

definition rendering_polling :: rendering where
  "rendering_polling = \<lparr>cells = run_polling, effects_pending = False\<rparr>"

definition rendering_switching :: rendering where
  "rendering_switching = phased_step (HookCall (Some ws_B)) rendering_polling"

section \<open>Properties\<close>

subsection \<open>Value equality\<close>

lemma loop_iff:
  "length a = length b \<Longrightarrow>
   sameFileStatusLists_loop a b index =
     (\<forall>i. index \<le> i \<and> i < length a \<longrightarrow>
        path (a ! i) = path (b ! i) \<and> status (a ! i) = status (b ! i)
        \<and> additions (a ! i) = additions (b ! i) \<and> deletions (a ! i) = deletions (b ! i))"
proof (induction a b index rule: sameFileStatusLists_loop.induct)
  case (1 a b index)
  show ?case
  proof (cases "index < length a")
    case False
    then show ?thesis by (auto simp add: sameFileStatusLists_loop.simps [of a b index])
  next
    case True
    let ?eq = "\<lambda>i. path (a ! i) = path (b ! i) \<and> status (a ! i) = status (b ! i)
        \<and> additions (a ! i) = additions (b ! i) \<and> deletions (a ! i) = deletions (b ! i)"
    show ?thesis
    proof (cases "?eq index")
      case False
      with True have "\<not> sameFileStatusLists_loop a b index"
        by (auto simp add: sameFileStatusLists_loop.simps [of a b index] Let_def)
      moreover from False True have "\<not> (\<forall>i. index \<le> i \<and> i < length a \<longrightarrow> ?eq i)"
        by blast
      ultimately show ?thesis by blast
    next
      case eq: True
      from True eq have unfold: "sameFileStatusLists_loop a b index = sameFileStatusLists_loop a b (index + 1)"
        by (simp add: sameFileStatusLists_loop.simps [of a b index] Let_def)
      from True eq "1.prems" have ih: "sameFileStatusLists_loop a b (index + 1) =
          (\<forall>i. index + 1 \<le> i \<and> i < length a \<longrightarrow> ?eq i)"
        by (intro "1.IH") (auto simp: Let_def)
      have "(\<forall>i. index \<le> i \<and> i < length a \<longrightarrow> ?eq i) = (\<forall>i. index + 1 \<le> i \<and> i < length a \<longrightarrow> ?eq i)"
      proof
        assume "\<forall>i. index \<le> i \<and> i < length a \<longrightarrow> ?eq i"
        then show "\<forall>i. index + 1 \<le> i \<and> i < length a \<longrightarrow> ?eq i" by simp
      next
        assume r: "\<forall>i. index + 1 \<le> i \<and> i < length a \<longrightarrow> ?eq i"
        show "\<forall>i. index \<le> i \<and> i < length a \<longrightarrow> ?eq i"
        proof (intro allI impI)
          fix i assume "index \<le> i \<and> i < length a"
          then consider "i = index" | "index + 1 \<le> i \<and> i < length a" by force
          then show "?eq i" using eq r by cases blast+
        qed
      qed
      with unfold ih show ?thesis by simp
    qed
  qed
qed

lemma sameFileStatusLists_spec: "sameFileStatusLists a b = spec_same_files a b"
  by (auto simp: sameFileStatusLists_def spec_same_files_def loop_iff)

lemma spec_same_files_eq: "spec_same_files a b = (a = b)"
  by (auto simp: spec_same_files_def list_eq_iff_nth_eq GitFileStatus.equality)

lemma sameStatusState_spec: "sameStatusState a b = spec_same_status a b"
  by (simp add: sameStatusState_def spec_same_status_def sameFileStatusLists_spec)

lemma sameStatusState_eq: "sameStatusState a b = (a = b)"
  by (auto simp: sameStatusState_def sameFileStatusLists_spec spec_same_files_eq GitStatusState.equality)

lemma setStatus_if_changed_eq: "setStatus_if_changed nextStatus s = s\<lparr>statusState := nextStatus\<rparr>"
  by (simp add: setStatus_if_changed_def sameStatusState_eq)

lemma strip_end:
  assumes "xs \<noteq> []" and "\<not> P (hd xs)"
  defines "u \<equiv> rev (dropWhile P (rev xs))"
  shows "u \<noteq> [] \<and> hd u = hd xs \<and> \<not> P (last u)"
proof -
  define d where "d = dropWhile P (rev xs)"
  define t where "t = takeWhile P (rev xs)"
  have "hd xs \<in> set (rev xs)" using assms(1) by simp
  with assms(2) have "\<not> (\<forall>x \<in> set (rev xs). P x)" by blast
  then have dn: "d \<noteq> []" unfolding d_def by (simp only: dropWhile_eq_Nil_conv not_False_eq_True)
  have "rev xs = t @ d" unfolding d_def t_def by simp
  then have "xs = rev d @ rev t" by (metis rev_append rev_rev_ident)
  with dn have h: "hd (rev d) = hd xs" by (metis hd_append2 rev_is_Nil_conv)
  have "\<not> P (hd d)" using dn unfolding d_def by (rule hd_dropWhile)
  with dn have l: "\<not> P (last (rev d))" by (simp add: last_rev)
  from dn h l show ?thesis unfolding u_def d_def by simp
qed

lemma trimmed_string_trim: "trimmed_string (trim s)"
proof (cases "dropWhile isWhiteSpace s = []")
  case True
  then have "trim s = []" unfolding trim_def by (simp only: rev.simps dropWhile.simps)
  then show ?thesis by (simp add: trimmed_string_def)
next
  case False
  then have "\<not> isWhiteSpace (hd (dropWhile isWhiteSpace s))" by (rule hd_dropWhile)
  with False have "trim s \<noteq> [] \<and> hd (trim s) = hd (dropWhile isWhiteSpace s)
      \<and> \<not> isWhiteSpace (last (trim s))"
    unfolding trim_def by (rule strip_end)
  with \<open>\<not> isWhiteSpace (hd (dropWhile isWhiteSpace s))\<close> show ?thesis
    by (cases "trim s") (simp_all add: trimmed_string_def)
qed

lemma trim_trimmed: "trimmed_string s \<Longrightarrow> trim s = s"
proof (cases s)
  case Nil then show ?thesis by (simp add: trim_def)
next
  case (Cons c cs)
  assume "trimmed_string s"
  with Cons have a: "\<not> isWhiteSpace c" and b: "\<not> isWhiteSpace (last s)"
    by (auto simp: trimmed_string_def)
  from a Cons have 1: "dropWhile isWhiteSpace s = s" by simp
  from Cons have "butlast s @ [last s] = s" by simp
  then have r: "rev s = last s # rev (butlast s)" by (metis rev.simps(2) rev_rev_ident rev_swap)
  have "dropWhile isWhiteSpace (last s # rev (butlast s)) = last s # rev (butlast s)"
    using b by simp
  then have 2: "dropWhile isWhiteSpace (rev s) = rev s" by (simp only: r)
  from 1 2 show ?thesis by (simp add: trim_def)
qed

subsection \<open>The handlers and the invariants\<close>

lemma trimmed_string_Nil: "trimmed_string []"
  by (simp add: trimmed_string_def)

lemma trimmed_string_resolveBranchName: "trimmed_string (resolveBranchName incoming cached)"
proof -
  have "resolveBranchName incoming cached = []
      \<or> (\<exists>t. resolveBranchName incoming cached = trim t)"
    by (cases incoming; cases cached) (auto simp add: resolveBranchName_def Let_def)
  then show ?thesis by (auto simp: trimmed_string_trim trimmed_string_Nil)
qed

lemma resolveBranchName_cases:
  "resolveBranchName incoming cached \<in>
     (case incoming of None \<Rightarrow> {} | Some i \<Rightarrow> {trim i})
     \<union> (case cached of None \<Rightarrow> {} | Some c \<Rightarrow> {trim (branchName c)})
     \<union> {[]}"
  by (cases incoming; cases cached) (simp_all add: resolveBranchName_def Let_def)

lemma nextStatus_fulfilled_simps:
  "error (nextStatus_fulfilled data cached) = None"
  "branchName (nextStatus_fulfilled data cached) = resolveBranchName (raw_branchName data) cached"
  "files (nextStatus_fulfilled data cached) = raw_files data"
  "stagedFiles (nextStatus_fulfilled data cached) = raw_stagedFiles data"
  "unstagedFiles (nextStatus_fulfilled data cached) = raw_unstagedFiles data"
  "totalAdditions (nextStatus_fulfilled data cached) = raw_totalAdditions data"
  "totalDeletions (nextStatus_fulfilled data cached) = raw_totalDeletions data"
  by (simp_all add: nextStatus_fulfilled_def Let_def)

lemma on_fulfilled_stale:
  "requestIdRef s \<noteq> requestId \<or> workspaceIdRef s \<noteq> Some w \<Longrightarrow> on_fulfilled requestId w data s = s"
  by (auto simp add: on_fulfilled_def)

lemma on_fulfilled_current:
  "requestIdRef s = requestId \<Longrightarrow> workspaceIdRef s = Some w \<Longrightarrow>
   on_fulfilled requestId w data s =
     s\<lparr>statusState := nextStatus_fulfilled data (cachedStatusRef s w),
       cachedStatusRef := (cachedStatusRef s)(w \<mapsto> nextStatus_fulfilled data (cachedStatusRef s w))\<rparr>"
  by (simp add: on_fulfilled_def Let_def setStatus_if_changed_eq)

lemma on_rejected_stale:
  "requestIdRef s \<noteq> requestId \<or> workspaceIdRef s \<noteq> Some w \<Longrightarrow>
   on_rejected requestId w err s = s\<lparr>console := console s @ [err]\<rparr>"
  by (auto simp add: on_rejected_def Let_def)

lemma on_rejected_current:
  "requestIdRef s = requestId \<Longrightarrow> workspaceIdRef s = Some w \<Longrightarrow>
   on_rejected requestId w err s =
     s\<lparr>console := console s @ [err],
       statusState := nextStatus_rejected err (cachedStatusRef s w)\<rparr>"
  by (simp add: on_rejected_def Let_def setStatus_if_changed_eq)

lemma cache_ok_cong:
  "cachedStatusRef t = cachedStatusRef s \<Longrightarrow> set (inflight t) \<subseteq> set (inflight s) \<Longrightarrow>
   cache_ok s \<Longrightarrow> cache_ok t"
  unfolding cache_ok_def by auto

lemma cells_ok_cong:
  "cachedStatusRef t = cachedStatusRef s \<Longrightarrow> set (inflight t) \<subseteq> set (inflight s) \<Longrightarrow>
   workspaceIdRef t = workspaceIdRef s \<Longrightarrow> workspaceId t = workspaceId s \<Longrightarrow>
   interval t = interval s \<Longrightarrow>
   statusState t = statusState s \<or> statusState t = emptyStatus \<Longrightarrow>
   cells_ok s \<Longrightarrow> cells_ok t"
  unfolding cells_ok_def displays_active_only_def derived_from_def
  by (auto intro: cache_ok_cong split: option.splits)

lemma derived_from_rejected: "derived_from slot (nextStatus_rejected err slot)"
  by (cases slot) (simp_all add: derived_from_def nextStatus_rejected_def Let_def)

lemma cells_ok_on_rejected: "cells_ok s \<Longrightarrow> cells_ok (on_rejected requestId w err s)"
proof (cases "requestIdRef s \<noteq> requestId \<or> workspaceIdRef s \<noteq> Some w")
  case True
  assume "cells_ok s"
  then show ?thesis by (rule cells_ok_cong [rotated -1]) (simp_all add: on_rejected_stale [OF True])
next
  case False
  assume ok: "cells_ok s"
  from False have eq: "on_rejected requestId w err s =
     s\<lparr>console := console s @ [err], statusState := nextStatus_rejected err (cachedStatusRef s w)\<rparr>"
    by (simp add: on_rejected_current)
  from ok have "cache_ok (on_rejected requestId w err s)"
    unfolding cells_ok_def by (auto intro: cache_ok_cong simp: eq)
  moreover from False have "displays_active_only (on_rejected requestId w err s)"
    by (simp add: eq displays_active_only_def derived_from_rejected)
  moreover from ok have "workspaceIdRef (on_rejected requestId w err s) = workspaceId (on_rejected requestId w err s)"
    by (simp add: eq cells_ok_def)
  moreover from ok have "interval (on_rejected requestId w err s) =
      (if falsy (workspaceId (on_rejected requestId w err s)) then None
       else workspaceId (on_rejected requestId w err s))"
    by (simp add: eq cells_ok_def)
  ultimately show ?thesis by (simp add: cells_ok_def)
qed

lemma cells_ok_on_fulfilled:
  assumes ok: "cells_ok s" and w: "w \<noteq> []"
  shows "cells_ok (on_fulfilled requestId w data s)"
proof (cases "requestIdRef s \<noteq> requestId \<or> workspaceIdRef s \<noteq> Some w")
  case True
  with ok show ?thesis by (simp add: on_fulfilled_stale)
next
  case False
  let ?n = "nextStatus_fulfilled data (cachedStatusRef s w)"
  from False have eq: "on_fulfilled requestId w data s =
     s\<lparr>statusState := ?n, cachedStatusRef := (cachedStatusRef s)(w \<mapsto> ?n)\<rparr>"
    by (simp add: on_fulfilled_current)
  from ok w have "cache_ok (on_fulfilled requestId w data s)"
    unfolding cells_ok_def cache_ok_def
    by (auto simp: eq nextStatus_fulfilled_simps trimmed_string_resolveBranchName)
  moreover from False have "displays_active_only (on_fulfilled requestId w data s)"
    by (simp add: eq displays_active_only_def derived_from_def)
  moreover from ok have "workspaceIdRef (on_fulfilled requestId w data s) = workspaceId (on_fulfilled requestId w data s)"
    by (simp add: eq cells_ok_def)
  moreover from ok have "interval (on_fulfilled requestId w data s) =
      (if falsy (workspaceId (on_fulfilled requestId w data s)) then None
       else workspaceId (on_fulfilled requestId w data s))"
    by (simp add: eq cells_ok_def)
  ultimately show ?thesis by (simp add: cells_ok_def)
qed

lemma cells_ok_refresh: "cells_ok s \<Longrightarrow> cells_ok (refresh c s)"
  unfolding cells_ok_def cache_ok_def displays_active_only_def derived_from_def refresh_def
  by (auto simp: Let_def split: option.splits)

lemma cells_ok_settle:
  assumes ok: "cells_ok s" and w: "w \<noteq> []"
  shows "cells_ok (fst (settle_refresh requestId w outcome s))"
  using assms
  by (cases outcome)
     (simp_all add: settle_refresh_def promise_then_def promise_catch_def
        cells_ok_on_fulfilled cells_ok_on_rejected)

lemma cells_ok_effects:
  assumes "cells_ok s"
  shows "cells_ok (effect_poll w (effect_workspace w (cleanup_poll (s\<lparr>workspaceId := w\<rparr>))))"
  using assms
  unfolding cells_ok_def cache_ok_def displays_active_only_def derived_from_def
    effect_poll_def effect_workspace_def cleanup_poll_def refresh_def
  by (cases w) (auto simp: Let_def split: option.splits)

lemma cells_ok_render: "cells_ok s \<Longrightarrow> cells_ok (render w s)"
  by (simp add: render_def cells_ok_effects)

lemma cells_ok_mount: "cells_ok (mount w)"
  unfolding cells_ok_def cache_ok_def displays_active_only_def derived_from_def mount_def
    effect_poll_def effect_workspace_def initial_cells_def refresh_def
  by (cases w) (auto simp: Let_def split: option.splits)

lemma cells_ok_step: "cells_ok s \<Longrightarrow> cells_ok (step e s)"
proof (cases e)
  case (Render w)
  assume "cells_ok s" with Render show ?thesis by (simp add: cells_ok_render)
next
  case Tick
  assume "cells_ok s" with Tick show ?thesis by (simp add: cells_ok_refresh split: option.splits)
next
  case (Refresh c)
  assume "cells_ok s" with Refresh show ?thesis by (simp add: cells_ok_refresh)
next
  case (Settle requestId w outcome)
  assume ok: "cells_ok s"
  show ?thesis
  proof (cases "(requestId, w) \<in> set (inflight s)")
    case False
    with ok Settle show ?thesis by simp
  next
    case True
    with ok have w: "w \<noteq> []" unfolding cells_ok_def cache_ok_def by force
    from ok have "cells_ok (s\<lparr>inflight := remove1 (requestId, w) (inflight s)\<rparr>)"
      by (rule cells_ok_cong [rotated -1]) (simp_all add: set_remove1_subset)
    then have "cells_ok (fst (settle_refresh requestId w outcome (s\<lparr>inflight := remove1 (requestId, w) (inflight s)\<rparr>)))"
      using w by (rule cells_ok_settle)
    with True Settle show ?thesis by simp
  qed
qed

lemma reachable_cells_ok: "reachable s \<Longrightarrow> cells_ok s"
  by (induction rule: reachable.induct) (simp_all add: cells_ok_mount cells_ok_step)


subsection \<open>The run\<close>

text \<open>The cells at each point of the run, computed.\<close>

lemma run_mounted_eq:
  "run_mounted = \<lparr>statusState = emptyStatus, requestIdRef = 1, workspaceIdRef = Some ws_A,
      cachedStatusRef = Map.empty, workspaceId = Some ws_A, inflight = [(1, ws_A)],
      interval = Some ws_A, console = []\<rparr>"
  by (simp add: run_mounted_def mount_def effect_poll_def effect_workspace_def initial_cells_def
        refresh_def Let_def ws_A_def js_def)

lemma nextStatus_raw_main: "nextStatus_fulfilled raw_main None = snapshot_main"
  by (simp add: nextStatus_fulfilled_def resolveBranchName_def Let_def known_branch_def
       raw_main_def snapshot_main_def trim_def isWhiteSpace_def js_def unknown_def)

lemma run_loaded_eq:
  "run_loaded = \<lparr>statusState = snapshot_main, requestIdRef = 1, workspaceIdRef = Some ws_A,
      cachedStatusRef = [ws_A \<mapsto> snapshot_main], workspaceId = Some ws_A, inflight = [],
      interval = Some ws_A, console = []\<rparr>"
  by (simp add: run_loaded_def run_mounted_eq settle_refresh_def promise_then_def promise_catch_def
        on_fulfilled_current nextStatus_raw_main)

lemma run_polling_eq:
  "run_polling = \<lparr>statusState = snapshot_main, requestIdRef = 2, workspaceIdRef = Some ws_A,
      cachedStatusRef = [ws_A \<mapsto> snapshot_main], workspaceId = Some ws_A, inflight = [(2, ws_A)],
      interval = Some ws_A, console = []\<rparr>"
  by (simp add: run_polling_def run_loaded_eq refresh_def Let_def ws_A_def js_def)


lemma reachable_run_mounted: "reachable run_mounted"
  unfolding run_mounted_def by (rule reachable_mount)

lemma reachable_run_loaded: "reachable run_loaded"
  unfolding run_loaded_def by (rule reachable_step [OF reachable_run_mounted])

lemma reachable_run_polling: "reachable run_polling"
  unfolding run_polling_def by (rule reachable_step [OF reachable_run_loaded])

lemma reachable_run_switched: "reachable run_switched"
  unfolding run_switched_def by (rule reachable_step [OF reachable_run_polling])

subsection \<open>Settling a request\<close>

lemma settle_refresh_Fulfilled:
  "settle_refresh requestId w (Fulfilled data) s = (on_fulfilled requestId w data s, Fulfilled ())"
  by (simp add: settle_refresh_def promise_then_def promise_catch_def)

lemma settle_refresh_Rejected:
  "settle_refresh requestId w (Rejected err) s = (on_rejected requestId w err s, Fulfilled ())"
  by (simp add: settle_refresh_def promise_then_def promise_catch_def)

subsection \<open>Trimming and the cache slots\<close>

lemma known_branch_None: "\<not> known_branch None"
  by (simp add: known_branch_def)

lemma trim_Nil: "trim [] = []"
  by (simp add: trim_def)

lemma trim_unknown: "trim unknown = unknown"
  by (simp add: trim_def unknown_def js_def isWhiteSpace_def)

lemma resolveBranchName_unknown_incoming:
  assumes "\<not> known_branch (Some (trim incoming))"
  shows "resolveBranchName (Some incoming) cached =
           (case cached of
              None \<Rightarrow> trim incoming
            | Some c \<Rightarrow> if known_branch (Some (trim (branchName c))) then trim (branchName c)
                        else trim incoming)"
  using assms by (cases cached) (simp_all add: resolveBranchName_def Let_def known_branch_None)

lemma cachedStatusRef_refresh: "cachedStatusRef (refresh c s) = cachedStatusRef s"
  by (simp add: refresh_def Let_def split: option.splits)

lemma cachedStatusRef_render: "cachedStatusRef (render b s) = cachedStatusRef s"
  by (simp add: render_def effect_poll_def effect_workspace_def cleanup_poll_def
        cachedStatusRef_refresh Let_def split: option.splits)

lemma cachedStatusRef_on_rejected: "cachedStatusRef (on_rejected requestId w err s) = cachedStatusRef s"
  by (simp add: on_rejected_def Let_def setStatus_if_changed_def)

subsection \<open>A render that changes the active workspace\<close>

lemma render_changed:
  assumes "workspaceIdRef s = workspaceId s" and "workspaceId s \<noteq> b"
  shows "statusState (render b s) =
           (case b of None \<Rightarrow> emptyStatus
            | Some w \<Rightarrow> if w = [] then emptyStatus
                        else (case cachedStatusRef s w of Some cached \<Rightarrow> cached | None \<Rightarrow> emptyStatus))"
    and "workspaceIdRef (render b s) = b" and "workspaceId (render b s) = b"
  using assms
  by (auto simp add: render_def effect_poll_def effect_workspace_def cleanup_poll_def
        refresh_def Let_def split: option.splits)

lemma interval_on_rejected: "interval (on_rejected requestId w err s) = interval s"
  by (simp add: on_rejected_def Let_def setStatus_if_changed_def)

lemma interval_on_fulfilled: "interval (on_fulfilled requestId w data s) = interval s"
  by (simp add: on_fulfilled_def Let_def setStatus_if_changed_def)

lemma refresh_issues:
  "v \<noteq> [] \<Longrightarrow> requestIdRef (refresh (Some v) s) = requestIdRef s + 1
     \<and> inflight (refresh (Some v) s) = inflight s @ [(requestIdRef s + 1, v)]
     \<and> interval (refresh (Some v) s) = interval s"
  by (simp add: refresh_def Let_def)

subsection \<open>Renders and effects apart\<close>

text \<open>
  The invariants of cache and display are kept by every event, also between a render and
  its effects; \<open>mount\<close> and \<open>render\<close> are a call of the hook followed at once
  by its effects, so every state of the first transition system is one of the second.
\<close>

lemma display_ok_cong:
  "cachedStatusRef t = cachedStatusRef s \<Longrightarrow> set (inflight t) \<subseteq> set (inflight s) \<Longrightarrow>
   workspaceIdRef t = workspaceIdRef s \<Longrightarrow>
   statusState t = statusState s \<or> statusState t = emptyStatus \<Longrightarrow>
   display_ok s \<Longrightarrow> display_ok t"
  unfolding display_ok_def displays_active_only_def derived_from_def
  by (auto intro: cache_ok_cong split: option.splits)

lemma display_ok_refresh: "display_ok s \<Longrightarrow> display_ok (refresh c s)"
  unfolding display_ok_def cache_ok_def displays_active_only_def derived_from_def refresh_def
  by (auto simp: Let_def split: option.splits)

lemma display_ok_on_rejected: "display_ok s \<Longrightarrow> display_ok (on_rejected requestId w err s)"
proof (cases "requestIdRef s \<noteq> requestId \<or> workspaceIdRef s \<noteq> Some w")
  case True
  assume "display_ok s"
  then show ?thesis by (rule display_ok_cong [rotated -1]) (simp_all add: on_rejected_stale [OF True])
next
  case False
  assume ok: "display_ok s"
  from False have eq: "on_rejected requestId w err s =
     s\<lparr>console := console s @ [err], statusState := nextStatus_rejected err (cachedStatusRef s w)\<rparr>"
    by (simp add: on_rejected_current)
  from ok have "cache_ok (on_rejected requestId w err s)"
    unfolding display_ok_def by (auto intro: cache_ok_cong simp: eq)
  moreover from False have "displays_active_only (on_rejected requestId w err s)"
    by (simp add: eq displays_active_only_def derived_from_rejected)
  ultimately show ?thesis by (simp add: display_ok_def)
qed

lemma display_ok_on_fulfilled:
  assumes ok: "display_ok s" and w: "w \<noteq> []"
  shows "display_ok (on_fulfilled requestId w data s)"
proof (cases "requestIdRef s \<noteq> requestId \<or> workspaceIdRef s \<noteq> Some w")
  case True
  with ok show ?thesis by (simp add: on_fulfilled_stale)
next
  case False
  let ?n = "nextStatus_fulfilled data (cachedStatusRef s w)"
  from False have eq: "on_fulfilled requestId w data s =
     s\<lparr>statusState := ?n, cachedStatusRef := (cachedStatusRef s)(w \<mapsto> ?n)\<rparr>"
    by (simp add: on_fulfilled_current)
  from ok w have "cache_ok (on_fulfilled requestId w data s)"
    unfolding display_ok_def cache_ok_def
    by (auto simp: eq nextStatus_fulfilled_simps trimmed_string_resolveBranchName)
  moreover from False have "displays_active_only (on_fulfilled requestId w data s)"
    by (simp add: eq displays_active_only_def derived_from_def)
  ultimately show ?thesis by (simp add: display_ok_def)
qed

lemma display_ok_settle:
  assumes ok: "display_ok s"
  shows "display_ok (step (Settle requestId w outcome) s)"
proof (cases "(requestId, w) \<in> set (inflight s)")
  case False
  with ok show ?thesis by simp
next
  case True
  with ok have w: "w \<noteq> []" unfolding display_ok_def cache_ok_def by force
  let ?s = "s\<lparr>inflight := remove1 (requestId, w) (inflight s)\<rparr>"
  from ok have "display_ok ?s"
    by (rule display_ok_cong [rotated -1]) (simp_all add: set_remove1_subset)
  then have "display_ok (fst (settle_refresh requestId w outcome ?s))"
    using w
    by (cases outcome)
       (simp_all add: settle_refresh_Fulfilled settle_refresh_Rejected
          display_ok_on_fulfilled display_ok_on_rejected)
  with True show ?thesis by simp
qed

lemma display_ok_tick: "display_ok s \<Longrightarrow> display_ok (step Tick s)"
  by (simp add: display_ok_refresh split: option.splits)

lemma display_ok_run_effects: "display_ok s \<Longrightarrow> display_ok (run_effects s)"
  unfolding display_ok_def cache_ok_def displays_active_only_def derived_from_def
    run_effects_def effect_poll_def effect_workspace_def cleanup_poll_def refresh_def
  by (cases "workspaceId s") (auto simp: Let_def split: option.splits)

lemma run_effects_ids:
  "workspaceIdRef (run_effects s) = workspaceId s" "workspaceId (run_effects s) = workspaceId s"
  "cachedStatusRef (run_effects s) = cachedStatusRef s"
  unfolding run_effects_def effect_poll_def effect_workspace_def cleanup_poll_def refresh_def
  by (cases "workspaceId s"; auto simp: Let_def split: option.splits)+

lemma run_effects_status:
  assumes "workspaceIdRef s \<noteq> workspaceId s"
  shows "statusState (run_effects s) =
           (case workspaceId s of None \<Rightarrow> emptyStatus
            | Some w \<Rightarrow> if w = [] then emptyStatus
                        else (case cachedStatusRef s w of Some cached \<Rightarrow> cached | None \<Rightarrow> emptyStatus))"
  using assms
  unfolding run_effects_def effect_poll_def effect_workspace_def cleanup_poll_def refresh_def
  by (cases "workspaceId s") (auto simp: Let_def split: option.splits)

lemma phased_ok_flush: "phased_ok p \<Longrightarrow> phased_ok (flush_effects p)"
  by (simp add: phased_ok_def flush_effects_def display_ok_run_effects run_effects_ids)

lemma flush_effects_settled:
  "phased_ok p \<Longrightarrow> \<not> effects_pending (flush_effects p)
     \<and> workspaceIdRef (cells (flush_effects p)) = workspaceId (cells (flush_effects p))"
  by (simp add: phased_ok_def flush_effects_def run_effects_ids)

lemma display_ok_workspaceId: "display_ok (s\<lparr>workspaceId := w\<rparr>) = display_ok s"
  by (simp add: display_ok_def cache_ok_def displays_active_only_def split: option.splits)

lemma phased_ok_useGitStatus: "phased_ok p \<Longrightarrow> phased_ok (snd (useGitStatus w p))"
proof -
  assume "phased_ok p"
  then have f: "phased_ok (flush_effects p)" by (rule phased_ok_flush)
  then show ?thesis
    by (auto simp add: useGitStatus_def Let_def phased_ok_def display_ok_workspaceId)
qed

lemma phased_ok_first: "phased_ok (snd (first_render w))"
  by (simp add: first_render_def phased_ok_def display_ok_def cache_ok_def
        displays_active_only_def derived_from_def initial_cells_def split: option.splits)

lemma ids_step_async:
  "workspaceIdRef (refresh c s) = workspaceIdRef s" "workspaceId (refresh c s) = workspaceId s"
  "workspaceIdRef (step (Settle i w outcome) s) = workspaceIdRef s"
  "workspaceId (step (Settle i w outcome) s) = workspaceId s"
proof -
  show "workspaceIdRef (refresh c s) = workspaceIdRef s" "workspaceId (refresh c s) = workspaceId s"
    by (simp_all add: refresh_def Let_def split: option.splits)
  show "workspaceIdRef (step (Settle i w outcome) s) = workspaceIdRef s"
    "workspaceId (step (Settle i w outcome) s) = workspaceId s"
    by (cases outcome;
        simp add: settle_refresh_Fulfilled settle_refresh_Rejected on_fulfilled_def on_rejected_def
          Let_def setStatus_if_changed_def)+
qed

lemma phased_ok_step: "phased_ok p \<Longrightarrow> phased_ok (phased_step e p)"
proof (cases e)
  case (HookCall w)
  assume "phased_ok p" with HookCall show ?thesis by (simp add: phased_ok_useGitStatus)
next
  case EffectsRun
  assume "phased_ok p" with EffectsRun show ?thesis by (simp add: phased_ok_flush)
next
  case TimerTick
  assume "phased_ok p"
  with TimerTick show ?thesis
    using display_ok_tick [of "cells p"]
    by (auto simp add: phased_ok_def ids_step_async split: option.splits)
next
  case (RefreshCall c)
  assume "phased_ok p"
  with RefreshCall show ?thesis
    by (simp add: phased_ok_def display_ok_refresh ids_step_async)
next
  case (RequestSettled i w outcome)
  assume "phased_ok p"
  with RequestSettled show ?thesis
    using display_ok_settle [of "cells p" i w outcome] ids_step_async(3,4) [of i w outcome "cells p"]
    by (simp add: phased_ok_def)
qed

lemma phased_reachable_ok: "phased_reachable p \<Longrightarrow> phased_ok p"
  by (induction rule: phased_reachable.induct) (simp_all add: phased_ok_first phased_ok_step)

lemma mount_phases: "mount w = cells (flush_effects (snd (first_render w)))"
  by (simp add: mount_def first_render_def flush_effects_def run_effects_def cleanup_poll_def
        initial_cells_def)

lemma render_phases:
  "render w s = cells (flush_effects (snd (useGitStatus w \<lparr>cells = s, effects_pending = False\<rparr>)))"
  by (simp add: render_def useGitStatus_def flush_effects_def run_effects_def Let_def)

lemma phased_of_reachable:
  "reachable s \<Longrightarrow> phased_reachable \<lparr>cells = s, effects_pending = False\<rparr>"
proof (induction rule: reachable.induct)
  case (reachable_mount w)
  have "phased_reachable (phased_step EffectsRun (snd (first_render w)))"
    by (rule phased_next [OF phased_first])
  then show ?case
    by (simp add: mount_def first_render_def flush_effects_def run_effects_def cleanup_poll_def
          initial_cells_def)
next
  case (reachable_step s e)
  let ?p = "\<lparr>cells = s, effects_pending = False\<rparr>"
  show ?case
  proof (cases e)
    case (Render w)
    have "phased_reachable (phased_step EffectsRun (phased_step (HookCall w) ?p))"
      by (intro phased_next reachable_step.IH)
    then show ?thesis using Render
      by (simp add: render_def useGitStatus_def flush_effects_def run_effects_def Let_def
            split: if_splits)
  next
    case Tick
    have "phased_reachable (phased_step TimerTick ?p)" by (intro phased_next reachable_step.IH)
    with Tick show ?thesis by simp
  next
    case (Refresh c)
    have "phased_reachable (phased_step (RefreshCall c) ?p)" by (intro phased_next reachable_step.IH)
    with Refresh show ?thesis by simp
  next
    case (Settle i w outcome)
    have "phased_reachable (phased_step (RequestSettled i w outcome) ?p)"
      by (intro phased_next reachable_step.IH)
    with Settle show ?thesis by simp
  qed
qed

lemma rendering_switching_eq:
  "rendering_switching = \<lparr>cells = run_polling\<lparr>workspaceId := Some ws_B\<rparr>, effects_pending = True\<rparr>"
  by (simp add: rendering_switching_def rendering_polling_def useGitStatus_def flush_effects_def
        Let_def run_polling_eq ws_A_def ws_B_def js_def)

lemma rendering_polling_run:
  "phased_step TimerTick
     (phased_step (RequestSettled 1 ws_A (Fulfilled raw_main))
        (phased_step EffectsRun (snd (first_render (Some ws_A))))) = rendering_polling"
proof -
  have "phased_step EffectsRun (snd (first_render (Some ws_A)))
          = \<lparr>cells = run_mounted, effects_pending = False\<rparr>"
    using mount_phases [of "Some ws_A"]
    by (simp add: first_render_def flush_effects_def run_mounted_def)
  then show ?thesis
    by (simp add: rendering_polling_def run_polling_def run_loaded_def)
qed

lemma phased_reachable_polling: "phased_reachable rendering_polling"
  unfolding rendering_polling_def by (rule phased_of_reachable [OF reachable_run_polling])

lemma phased_reachable_switching: "phased_reachable rendering_switching"
  unfolding rendering_switching_def by (rule phased_next [OF phased_reachable_polling])

section \<open>The claims\<close>



text \<open>
  C2, as amended. When the hook is called with a new active workspace id B, that render
  still returns the status that was displayed before, and the cells keep it until the
  effects of the render run. These effects need no request to settle: they set
  \<^verbatim>\<open>workspaceIdRef\<close> to B and replace the displayed status by the snapshot in B's
  cache slot if there is one and by the empty default otherwise; for B =
  \<^verbatim>\<open>null\<close> it is the empty default. In every state, whatever the order of hook
  calls, effects, ticks, calls of \<^verbatim>\<open>refresh\<close> and settling requests, the
  displayed status is derived from the slot of the id in \<^verbatim>\<open>workspaceIdRef\<close> or
  is a default, and once the effects of a render have run that id is the active one: from
  then on the snapshot of another workspace is not on display.
\<close>

theorem workspace_switch_display:
  assumes "phased_reachable p"
  shows "displays_active_only (cells p)
         \<and> (\<not> effects_pending p \<longrightarrow> workspaceIdRef (cells p) = workspaceId (cells p))
         \<and> fst (useGitStatus b p) = statusState (cells (flush_effects p))
         \<and> (workspaceId (cells (flush_effects p)) \<noteq> b \<longrightarrow>
              effects_pending (snd (useGitStatus b p))
              \<and> workspaceId (cells (snd (useGitStatus b p))) = b
              \<and> workspaceIdRef (cells (snd (useGitStatus b p))) = workspaceId (cells (flush_effects p))
              \<and> statusState (cells (snd (useGitStatus b p))) = statusState (cells (flush_effects p))
              \<and> statusState (cells (flush_effects (snd (useGitStatus b p)))) =
                  (case b of None \<Rightarrow> emptyStatus
                   | Some w \<Rightarrow> (case cachedStatusRef (cells p) w of Some cached \<Rightarrow> cached
                               | None \<Rightarrow> emptyStatus)))
         \<and> (effects_pending p \<and> workspaceIdRef (cells p) \<noteq> workspaceId (cells p) \<longrightarrow>
              workspaceIdRef (cells (flush_effects p)) = workspaceId (cells p)
              \<and> statusState (cells (flush_effects p)) =
                  (case workspaceId (cells p) of None \<Rightarrow> emptyStatus
                   | Some w \<Rightarrow> (case cachedStatusRef (cells p) w of Some cached \<Rightarrow> cached
                               | None \<Rightarrow> emptyStatus)))"
proof -
  from assms have ok: "phased_ok p" by (rule phased_reachable_ok)
  then have none: "cachedStatusRef (cells p) [] = None"
    by (simp add: phased_ok_def display_ok_def cache_ok_def)
  have pending: "statusState (run_effects s) =
           (case workspaceId s of None \<Rightarrow> emptyStatus
            | Some w \<Rightarrow> (case cachedStatusRef s w of Some cached \<Rightarrow> cached | None \<Rightarrow> emptyStatus))"
    if "workspaceIdRef s \<noteq> workspaceId s" and "cachedStatusRef s [] = None" for s
    using run_effects_status [OF that(1)] that(2) by (auto split: option.splits)
  let ?f = "flush_effects p"
  from ok have okf: "phased_ok ?f" by (rule phased_ok_flush)
  from ok have settled: "\<not> effects_pending ?f \<and> workspaceIdRef (cells ?f) = workspaceId (cells ?f)"
    by (rule flush_effects_settled)
  have cache_f: "cachedStatusRef (cells ?f) = cachedStatusRef (cells p)"
    by (simp add: flush_effects_def run_effects_ids)
  have 1: "displays_active_only (cells p)"
    using ok by (simp add: phased_ok_def display_ok_def)
  have 2: "\<not> effects_pending p \<longrightarrow> workspaceIdRef (cells p) = workspaceId (cells p)"
    using ok by (simp add: phased_ok_def)
  have 3: "fst (useGitStatus b p) = statusState (cells ?f)"
    by (simp add: useGitStatus_def Let_def)
  have 4: "effects_pending (snd (useGitStatus b p))
              \<and> workspaceId (cells (snd (useGitStatus b p))) = b
              \<and> workspaceIdRef (cells (snd (useGitStatus b p))) = workspaceId (cells ?f)
              \<and> statusState (cells (snd (useGitStatus b p))) = statusState (cells ?f)
              \<and> statusState (cells (flush_effects (snd (useGitStatus b p)))) =
                  (case b of None \<Rightarrow> emptyStatus
                   | Some w \<Rightarrow> (case cachedStatusRef (cells p) w of Some cached \<Rightarrow> cached
                               | None \<Rightarrow> emptyStatus))"
    if ne: "workspaceId (cells ?f) \<noteq> b"
  proof -
    let ?s = "(cells ?f)\<lparr>workspaceId := b\<rparr>"
    from ne have q: "snd (useGitStatus b p) = \<lparr>cells = ?s, effects_pending = True\<rparr>"
      by (simp add: useGitStatus_def Let_def)
    from ne have r: "workspaceIdRef ?s \<noteq> workspaceId ?s" using settled by simp
    have c: "cachedStatusRef ?s [] = None" using none cache_f by simp
    from pending [OF r c] cache_f have
      "statusState (run_effects ?s) =
         (case b of None \<Rightarrow> emptyStatus
          | Some w \<Rightarrow> (case cachedStatusRef (cells p) w of Some cached \<Rightarrow> cached | None \<Rightarrow> emptyStatus))"
      by (simp split: option.splits)
    then show ?thesis using settled by (simp add: q flush_effects_def)
  qed
  have 5: "workspaceIdRef (cells ?f) = workspaceId (cells p)
              \<and> statusState (cells ?f) =
                  (case workspaceId (cells p) of None \<Rightarrow> emptyStatus
                   | Some w \<Rightarrow> (case cachedStatusRef (cells p) w of Some cached \<Rightarrow> cached
                               | None \<Rightarrow> emptyStatus))"
    if "effects_pending p \<and> workspaceIdRef (cells p) \<noteq> workspaceId (cells p)"
    using that pending [of "cells p"] none by (simp add: flush_effects_def run_effects_ids)
  from 1 2 3 4 5 show ?thesis by blast
qed

theorem workspace_switch_display_witness:
  "phased_reachable rendering_polling \<and> phased_reachable rendering_switching
   \<and> phased_step TimerTick
        (phased_step (RequestSettled 1 ws_A (Fulfilled raw_main))
           (phased_step EffectsRun (snd (first_render (Some ws_A))))) = rendering_polling
   \<and> workspaceId (cells rendering_polling) = Some ws_A \<and> ws_A \<noteq> ws_B
   \<and> effects_pending rendering_switching
   \<and> workspaceIdRef (cells rendering_switching) = Some ws_A
   \<and> workspaceId (cells rendering_switching) = Some ws_B
   \<and> statusState (cells (flush_effects rendering_switching)) = emptyStatus
   \<and> workspaceIdRef (cells (flush_effects rendering_switching)) = Some ws_B
   \<and> statusState (cells (flush_effects (snd (useGitStatus None rendering_polling)))) = emptyStatus
   \<and> displays_active_only (cells rendering_switching)
   \<and> statusState (cells (phased_step (RequestSettled 2 ws_A (Rejected (OtherValue (js ''offline''))))
          rendering_switching)) = snapshot_main\<lparr>error := Some (js ''offline'')\<rparr>
   \<and> statusState (cells (flush_effects
          (phased_step (RequestSettled 2 ws_A (Rejected (OtherValue (js ''offline''))))
             rendering_switching))) = emptyStatus"
proof -
  let ?late = "phased_step (RequestSettled 2 ws_A (Rejected (OtherValue (js ''offline''))))
                 rendering_switching"
  have ne: "ws_A \<noteq> ws_B" by (simp add: ws_A_def ws_B_def js_def)
  have f: "flush_effects rendering_polling = rendering_polling"
    by (simp add: flush_effects_def rendering_polling_def)
  have a: "workspaceId (cells rendering_polling) = Some ws_A"
    "cachedStatusRef (cells rendering_polling) ws_B = None"
    using ne by (simp_all add: rendering_polling_def run_polling_eq)
  have b: "effects_pending rendering_switching"
    "workspaceIdRef (cells rendering_switching) = Some ws_A"
    "workspaceId (cells rendering_switching) = Some ws_B"
    "cachedStatusRef (cells rendering_switching) ws_B = None"
    using ne by (simp_all add: rendering_switching_eq run_polling_eq)
  have late: "phased_reachable ?late" by (rule phased_next [OF phased_reachable_switching])
  have l: "effects_pending ?late" "workspaceIdRef (cells ?late) = Some ws_A"
    "workspaceId (cells ?late) = Some ws_B" "cachedStatusRef (cells ?late) ws_B = None"
    "statusState (cells ?late) = snapshot_main\<lparr>error := Some (js ''offline'')\<rparr>"
    using ne
    by (simp_all add: rendering_switching_eq run_polling_eq settle_refresh_Rejected
          on_rejected_current nextStatus_rejected_def)
  from workspace_switch_display [OF phased_reachable_switching, of None]
    workspace_switch_display [OF phased_reachable_polling, of None]
    workspace_switch_display [OF late, of None]
    phased_reachable_polling phased_reachable_switching ne f a b l rendering_polling_run
  show ?thesis by simp
qed

text \<open>
  C2 as first stated has the status replaced at once, and A's snapshot never displayed
  while B is active. Workspace A is displayed with its cached snapshot and the hook is
  called with workspace B, which has no cache slot: the call returns A's snapshot, and
  the cells hold the active id B together with A's snapshot, not the empty default,
  until the effects run.
\<close>

theorem workspace_switch_display_counterexample:
  "phased_reachable rendering_polling
   \<and> workspaceId (cells rendering_polling) = Some ws_A
   \<and> cachedStatusRef (cells rendering_polling) ws_A = Some snapshot_main
   \<and> fst (useGitStatus (Some ws_B) rendering_polling) = snapshot_main
   \<and> workspaceId (cells (snd (useGitStatus (Some ws_B) rendering_polling))) = Some ws_B
   \<and> cachedStatusRef (cells (snd (useGitStatus (Some ws_B) rendering_polling))) ws_B = None
   \<and> statusState (cells (snd (useGitStatus (Some ws_B) rendering_polling))) = snapshot_main
   \<and> snapshot_main \<noteq> emptyStatus"
proof -
  have ne: "ws_A \<noteq> ws_B" by (simp add: ws_A_def ws_B_def js_def)
  have d: "snapshot_main \<noteq> emptyStatus" by (simp add: snapshot_main_def emptyStatus_def)
  have "snd (useGitStatus (Some ws_B) rendering_polling) = rendering_switching"
    by (simp add: rendering_switching_def)
  moreover have "fst (useGitStatus (Some ws_B) rendering_polling) = snapshot_main"
    by (simp add: useGitStatus_def Let_def flush_effects_def rendering_polling_def run_polling_eq)
  ultimately show ?thesis
    using ne d phased_reachable_polling
    by (simp add: rendering_switching_eq rendering_polling_def run_polling_eq)
qed

text \<open>
  C3, as amended. Let the incoming branch name be empty or \<^verbatim>\<open>"unknown"\<close> after
  trimming. If the cache slot of the workspace holds a known branch name, the resolved
  name is the cached one (the cached names of a reachable state are trimmed; for an
  arbitrary snapshot it is the cached name trimmed). Otherwise the resolved name is
  the incoming value trimmed; an incoming value that is exactly empty or exactly
  \<^verbatim>\<open>"unknown"\<close> is therefore used as it is.
\<close>

theorem sticky_branch_name:
  assumes "\<not> known_branch (Some (trim incoming))"
  shows "(reachable s \<and> cachedStatusRef s w = Some c \<and> known_branch (Some (branchName c)) \<longrightarrow>
            resolveBranchName (Some incoming) (cachedStatusRef s w) = branchName c)
         \<and> (known_branch (Some (trim (branchName c))) \<longrightarrow>
              resolveBranchName (Some incoming) (Some c) = trim (branchName c))
         \<and> (\<not> known_branch (Some (trim (branchName c))) \<longrightarrow>
              resolveBranchName (Some incoming) (Some c) = trim incoming)
         \<and> resolveBranchName (Some incoming) None = trim incoming
         \<and> (incoming = [] \<or> incoming = unknown \<longrightarrow> trim incoming = incoming)"
proof (intro conjI impI)
  assume a: "reachable s \<and> cachedStatusRef s w = Some c \<and> known_branch (Some (branchName c))"
  then have "cells_ok s" by (simp add: reachable_cells_ok)
  with a have "trimmed_string (branchName c)" unfolding cells_ok_def cache_ok_def by blast
  then have "trim (branchName c) = branchName c" by (rule trim_trimmed)
  with a assms show "resolveBranchName (Some incoming) (cachedStatusRef s w) = branchName c"
    by (simp add: resolveBranchName_unknown_incoming)
next
  assume "known_branch (Some (trim (branchName c)))"
  with assms show "resolveBranchName (Some incoming) (Some c) = trim (branchName c)"
    by (simp add: resolveBranchName_unknown_incoming)
next
  assume "\<not> known_branch (Some (trim (branchName c)))"
  with assms show "resolveBranchName (Some incoming) (Some c) = trim incoming"
    by (simp add: resolveBranchName_unknown_incoming)
next
  from assms show "resolveBranchName (Some incoming) None = trim incoming"
    by (simp add: resolveBranchName_unknown_incoming)
next
  assume "incoming = [] \<or> incoming = unknown"
  then show "trim incoming = incoming" by (auto simp: trim_Nil trim_unknown)
qed

theorem sticky_branch_name_witness:
  "\<not> known_branch (Some (trim (js '' unknown '')))
   \<and> reachable run_polling \<and> cachedStatusRef run_polling ws_A = Some snapshot_main
   \<and> known_branch (Some (branchName snapshot_main))
   \<and> resolveBranchName (Some (js '' unknown '')) (cachedStatusRef run_polling ws_A) = js ''main''
   \<and> resolveBranchName (Some (js '' unknown '')) None = js ''unknown''"
proof -
  have t: "trim (js '' unknown '') = unknown"
    by (simp add: trim_def unknown_def js_def isWhiteSpace_def)
  then have h: "\<not> known_branch (Some (trim (js '' unknown '')))"
    by (simp add: known_branch_def)
  have k: "known_branch (Some (branchName snapshot_main))"
    by (simp add: known_branch_def snapshot_main_def unknown_def js_def)
  have c: "cachedStatusRef run_polling ws_A = Some snapshot_main" by (simp add: run_polling_eq)
  have b: "branchName snapshot_main = js ''main''" by (simp add: snapshot_main_def)
  have u: "unknown = js ''unknown''" by (simp add: unknown_def)
  from sticky_branch_name [OF h, of run_polling ws_A snapshot_main] reachable_run_polling c k t h b u
  show ?thesis by metis
qed

text \<open>
  C3 as first stated has the incoming value used unchanged when nothing known is
  cached. Two spaces are empty after trimming, no slot exists, and the resolved name is
  the empty string, not the two spaces.
\<close>

theorem sticky_branch_name_counterexample:
  "\<not> known_branch (Some (trim (js ''  '')))
   \<and> resolveBranchName (Some (js ''  '')) None \<noteq> js ''  ''"
  by (simp add: resolveBranchName_def Let_def known_branch_def trim_def isWhiteSpace_def js_def)

text \<open>
  C4, as amended. The cache slot of a workspace is written by the fulfilment of the
  current request for the active workspace, and by nothing else: that fulfilment stores
  the new snapshot in the slot (creating it the first time, replacing it afterwards);
  a rejection leaves the cache as it was, and so does every other event.
\<close>

theorem cache_written_by_success_only:
  "(requestIdRef s = requestId \<and> workspaceIdRef s = Some w \<longrightarrow>
      cachedStatusRef (fst (settle_refresh requestId w (Fulfilled data) s))
        = (cachedStatusRef s)(w \<mapsto> nextStatus_fulfilled data (cachedStatusRef s w)))
   \<and> cachedStatusRef (fst (settle_refresh requestId w (Rejected err) s)) = cachedStatusRef s
   \<and> ((\<forall>i v d. e \<noteq> Settle i v (Fulfilled d)) \<longrightarrow> cachedStatusRef (step e s) = cachedStatusRef s)"
proof (intro conjI impI)
  assume "requestIdRef s = requestId \<and> workspaceIdRef s = Some w"
  then show "cachedStatusRef (fst (settle_refresh requestId w (Fulfilled data) s))
        = (cachedStatusRef s)(w \<mapsto> nextStatus_fulfilled data (cachedStatusRef s w))"
    by (simp add: settle_refresh_Fulfilled on_fulfilled_current)
next
  show "cachedStatusRef (fst (settle_refresh requestId w (Rejected err) s)) = cachedStatusRef s"
    by (simp add: settle_refresh_Rejected cachedStatusRef_on_rejected)
next
  assume ne: "\<forall>i v d. e \<noteq> Settle i v (Fulfilled d)"
  show "cachedStatusRef (step e s) = cachedStatusRef s"
  proof (cases e)
    case (Settle i v outcome)
    with ne obtain err' where "outcome = Rejected err'" by (cases outcome) auto
    with Settle show ?thesis
      by (simp add: settle_refresh_Rejected cachedStatusRef_on_rejected)
  qed (simp_all add: cachedStatusRef_render cachedStatusRef_refresh split: option.splits)
qed

theorem cache_written_by_success_only_witness:
  "requestIdRef run_mounted = 1 \<and> workspaceIdRef run_mounted = Some ws_A
   \<and> cachedStatusRef run_mounted ws_A = None
   \<and> cachedStatusRef (fst (settle_refresh 1 ws_A (Fulfilled raw_main) run_mounted)) ws_A = Some snapshot_main
   \<and> cachedStatusRef (fst (settle_refresh 1 ws_A (Rejected (ErrorObject (js ''timeout''))) run_mounted)) ws_A = None
   \<and> cachedStatusRef (step Tick run_mounted) ws_A = None"
  using cache_written_by_success_only [of run_mounted 1 ws_A raw_main "ErrorObject (js ''timeout'')" Tick]
  by (simp add: run_mounted_eq nextStatus_raw_main)

text \<open>
  C4 as first stated has the failure path write the cache too. The first request for
  workspace A is rejected while it is the current request for the active workspace, and
  A still has no slot afterwards.
\<close>

theorem cache_written_by_success_only_counterexample:
  "requestIdRef run_mounted = 1 \<and> workspaceIdRef run_mounted = Some ws_A
   \<and> (1, ws_A) \<in> set (inflight run_mounted)
   \<and> cachedStatusRef run_mounted ws_A = None
   \<and> cachedStatusRef (step (Settle 1 ws_A (Rejected (ErrorObject (js ''timeout'')))) run_mounted) ws_A = None"
  by (simp add: run_mounted_eq settle_refresh_Rejected cachedStatusRef_on_rejected)

text \<open>
  C5. A rejection of the current request for the active workspace, when that workspace
  has a cache slot, displays the cached snapshot with only its error replaced by the
  failure message: branch name, the three file lists and both totals are those of the
  cached snapshot. The failure message is the \<^verbatim>\<open>message\<close> of an
  \<^verbatim>\<open>Error\<close> object, and the string conversion of any other rejected value.
\<close>

theorem failure_keeps_cached_data:
  assumes "requestIdRef s = requestId" and "workspaceIdRef s = Some w"
    and "cachedStatusRef s w = Some c"
  shows "statusState (fst (settle_refresh requestId w (Rejected (ErrorObject message)) s))
           = \<lparr>branchName = branchName c, files = files c, stagedFiles = stagedFiles c,
              unstagedFiles = unstagedFiles c, totalAdditions = totalAdditions c,
              totalDeletions = totalDeletions c, error = Some message\<rparr>
         \<and> statusState (fst (settle_refresh requestId w (Rejected (OtherValue converted)) s))
           = \<lparr>branchName = branchName c, files = files c, stagedFiles = stagedFiles c,
              unstagedFiles = unstagedFiles c, totalAdditions = totalAdditions c,
              totalDeletions = totalDeletions c, error = Some converted\<rparr>"
  using assms
  by (cases c) (simp add: settle_refresh_Rejected on_rejected_current nextStatus_rejected_def)

theorem failure_keeps_cached_data_witness:
  "requestIdRef run_polling = 2 \<and> workspaceIdRef run_polling = Some ws_A
   \<and> cachedStatusRef run_polling ws_A = Some snapshot_main
   \<and> statusState (fst (settle_refresh 2 ws_A (Rejected (ErrorObject (js ''network down''))) run_polling))
       = \<lparr>branchName = js ''main'', files = [file_a], stagedFiles = [],
          unstagedFiles = [file_a], totalAdditions = 3, totalDeletions = 1,
          error = Some (js ''network down'')\<rparr>
   \<and> statusState (fst (settle_refresh 2 ws_A (Rejected (OtherValue (js ''offline''))) run_polling))
       = \<lparr>branchName = js ''main'', files = [file_a], stagedFiles = [],
          unstagedFiles = [file_a], totalAdditions = 3, totalDeletions = 1,
          error = Some (js ''offline'')\<rparr>"
  using failure_keeps_cached_data [of run_polling 2 ws_A snapshot_main "js ''network down''" "js ''offline''"]
  by (simp add: run_polling_eq snapshot_main_def)

text \<open>
  C6. A rejection of the current request for the active workspace, when that workspace
  has no cache slot, displays the empty default (no files, zero totals) with the branch
  name \<^verbatim>\<open>"unknown"\<close> and the failure message as error: the
  \<^verbatim>\<open>message\<close> of an \<^verbatim>\<open>Error\<close> object, the string conversion of any
  other rejected value.
\<close>

theorem failure_without_cache:
  assumes "requestIdRef s = requestId" and "workspaceIdRef s = Some w"
    and "cachedStatusRef s w = None"
  shows "statusState (fst (settle_refresh requestId w (Rejected (ErrorObject message)) s))
           = \<lparr>branchName = unknown, files = [], stagedFiles = [], unstagedFiles = [],
              totalAdditions = 0, totalDeletions = 0, error = Some message\<rparr>
         \<and> statusState (fst (settle_refresh requestId w (Rejected (OtherValue converted)) s))
           = \<lparr>branchName = unknown, files = [], stagedFiles = [], unstagedFiles = [],
              totalAdditions = 0, totalDeletions = 0, error = Some converted\<rparr>"
  using assms
  by (simp add: settle_refresh_Rejected on_rejected_current nextStatus_rejected_def emptyStatus_def)

theorem failure_without_cache_witness:
  "requestIdRef run_mounted = 1 \<and> workspaceIdRef run_mounted = Some ws_A
   \<and> cachedStatusRef run_mounted ws_A = None
   \<and> statusState (fst (settle_refresh 1 ws_A (Rejected (ErrorObject (js ''timeout''))) run_mounted))
       = emptyStatus\<lparr>branchName := js ''unknown'', error := Some (js ''timeout'')\<rparr>
   \<and> statusState (fst (settle_refresh 1 ws_A (Rejected (OtherValue (js ''offline''))) run_mounted))
       = emptyStatus\<lparr>branchName := js ''unknown'', error := Some (js ''offline'')\<rparr>"
  using failure_without_cache [of run_mounted 1 ws_A "js ''timeout''" "js ''offline''"]
  by (simp add: run_mounted_eq emptyStatus_def unknown_def)

text \<open>
  C7. \<^verbatim>\<open>sameStatusState\<close> is true exactly when the two snapshots agree as the
  specification words it (\<open>spec_same_status\<close>): same branch name, error and totals,
  and three file lists of the same length with the same path, status, additions and
  deletions at each index. It depends on the values only, so equal snapshots compare
  equal however they were built. When the next status of a current response compares
  equal to the displayed one, the state update returns the displayed value itself.
\<close>

theorem sameStatusState_value_equality:
  "(sameStatusState a b \<longleftrightarrow> spec_same_status a b)
   \<and> (a = b \<longrightarrow> sameStatusState a b)
   \<and> (sameStatusState (statusState s) nextStatus \<longrightarrow>
        statusState (setStatus_if_changed nextStatus s) = statusState s)
   \<and> (requestIdRef s = requestId \<and> workspaceIdRef s = Some w
        \<and> sameStatusState (statusState s) (nextStatus_fulfilled data (cachedStatusRef s w)) \<longrightarrow>
        statusState (on_fulfilled requestId w data s) = statusState s)
   \<and> (requestIdRef s = requestId \<and> workspaceIdRef s = Some w
        \<and> sameStatusState (statusState s) (nextStatus_rejected err (cachedStatusRef s w)) \<longrightarrow>
        statusState (on_rejected requestId w err s) = statusState s)"
proof (intro conjI impI)
  show "sameStatusState a b \<longleftrightarrow> spec_same_status a b" by (rule sameStatusState_spec)
next
  assume "a = b" then show "sameStatusState a b" by (simp add: sameStatusState_eq)
next
  assume "sameStatusState (statusState s) nextStatus"
  then show "statusState (setStatus_if_changed nextStatus s) = statusState s"
    by (simp add: setStatus_if_changed_def)
next
  assume "requestIdRef s = requestId \<and> workspaceIdRef s = Some w
        \<and> sameStatusState (statusState s) (nextStatus_fulfilled data (cachedStatusRef s w))"
  then show "statusState (on_fulfilled requestId w data s) = statusState s"
    by (simp add: on_fulfilled_def Let_def setStatus_if_changed_def)
next
  assume "requestIdRef s = requestId \<and> workspaceIdRef s = Some w
        \<and> sameStatusState (statusState s) (nextStatus_rejected err (cachedStatusRef s w))"
  then show "statusState (on_rejected requestId w err s) = statusState s"
    by (simp add: on_rejected_def Let_def setStatus_if_changed_def)
qed

theorem sameStatusState_value_equality_witness:
  "sameStatusState (statusState run_polling) (nextStatus_fulfilled raw_main (cachedStatusRef run_polling ws_A))
   \<and> requestIdRef run_polling = 2 \<and> workspaceIdRef run_polling = Some ws_A
   \<and> statusState (on_fulfilled 2 ws_A raw_main run_polling) = statusState run_polling
   \<and> spec_same_status (statusState run_polling) (nextStatus_fulfilled raw_main (cachedStatusRef run_polling ws_A))
   \<and> \<not> sameStatusState snapshot_main (snapshot_main\<lparr>unstagedFiles := [file_a\<lparr>deletions := 2\<rparr>]\<rparr>)
   \<and> \<not> spec_same_status snapshot_main (snapshot_main\<lparr>unstagedFiles := [file_a\<lparr>deletions := 2\<rparr>]\<rparr>)"
proof -
  let ?n = "nextStatus_fulfilled raw_main (cachedStatusRef run_polling ws_A)"
  let ?other = "snapshot_main\<lparr>unstagedFiles := [file_a\<lparr>deletions := 2\<rparr>]\<rparr>"
  have n: "?n = snapshot_main"
    by (simp add: run_polling_eq nextStatus_fulfilled_def resolveBranchName_def Let_def
          known_branch_def raw_main_def snapshot_main_def trim_def isWhiteSpace_def js_def unknown_def)
  have st: "statusState run_polling = snapshot_main" by (simp add: run_polling_eq)
  have ids: "requestIdRef run_polling = 2 \<and> workspaceIdRef run_polling = Some ws_A"
    by (simp add: run_polling_eq)
  note here = sameStatusState_value_equality
    [of "statusState run_polling" ?n run_polling ?n 2 ws_A raw_main "OtherValue []"]
  from n st have "statusState run_polling = ?n" by simp
  with here have same: "sameStatusState (statusState run_polling) ?n" by blast
  with here have spec: "spec_same_status (statusState run_polling) ?n" by blast
  from here same ids have kept: "statusState (on_fulfilled 2 ws_A raw_main run_polling) = statusState run_polling"
    by blast
  have "\<not> spec_same_status snapshot_main ?other"
    by (simp add: spec_same_status_def spec_same_files_def snapshot_main_def file_a_def)
  with sameStatusState_value_equality
    [of snapshot_main ?other run_polling ?n 2 ws_A raw_main "OtherValue []"]
  have diff: "\<not> sameStatusState snapshot_main ?other \<and> \<not> spec_same_status snapshot_main ?other"
    by blast
  from same ids kept spec diff show ?thesis by blast
qed

text \<open>
  C8. The promise that \<^verbatim>\<open>refresh\<close> returns is fulfilled whatever the external
  call settles with, so no failure leaves the hook as a rejection. Settling a request
  does not touch the timer, which in every reachable state runs for the active
  workspace whenever there is one. A rejection of the current request is displayed as
  the error message, and after any rejection the next tick and the next call of
  \<^verbatim>\<open>refresh\<close> issue a new request.
\<close>

theorem failure_never_escapes:
  assumes "reachable s"
  shows "snd (settle_refresh requestId w outcome s) = Fulfilled ()
         \<and> interval (step (Settle requestId w outcome) s) = interval s
         \<and> interval s = (if falsy (workspaceId s) then None else workspaceId s)
         \<and> ((requestId, w) \<in> set (inflight s) \<and> requestIdRef s = requestId \<and> workspaceIdRef s = Some w \<longrightarrow>
              error (statusState (step (Settle requestId w (Rejected err)) s)) = Some (error_message err))
         \<and> (workspaceId s = Some v \<and> v \<noteq> [] \<longrightarrow>
              (let s' = step (Settle requestId w (Rejected err)) s in
               inflight (step Tick s') = inflight s' @ [(requestIdRef s' + 1, v)]
               \<and> inflight (step (Refresh (Some v)) s') = inflight s' @ [(requestIdRef s' + 1, v)]))"
proof (intro conjI impI)
  from assms have ok: "cells_ok s" by (rule reachable_cells_ok)
  show "snd (settle_refresh requestId w outcome s) = Fulfilled ()"
    by (cases outcome) (simp_all add: settle_refresh_Fulfilled settle_refresh_Rejected)
  show "interval (step (Settle requestId w outcome) s) = interval s"
    by (cases outcome)
       (simp_all add: settle_refresh_Fulfilled settle_refresh_Rejected
          interval_on_fulfilled interval_on_rejected)
  from ok show "interval s = (if falsy (workspaceId s) then None else workspaceId s)"
    by (simp add: cells_ok_def)
  { assume "(requestId, w) \<in> set (inflight s) \<and> requestIdRef s = requestId \<and> workspaceIdRef s = Some w"
    then show "error (statusState (step (Settle requestId w (Rejected err)) s)) = Some (error_message err)"
      by (simp add: settle_refresh_Rejected on_rejected_current nextStatus_rejected_def Let_def
            split: option.splits) }
  assume v: "workspaceId s = Some v \<and> v \<noteq> []"
  let ?s' = "step (Settle requestId w (Rejected err)) s"
  have "reachable ?s'" using assms by (rule reachable_step)
  then have ok': "cells_ok ?s'" by (rule reachable_cells_ok)
  have "workspaceId ?s' = workspaceId s"
    by (simp add: settle_refresh_Rejected on_rejected_def Let_def setStatus_if_changed_def)
  with ok' v have "interval ?s' = Some v" by (simp add: cells_ok_def)
  with v show "let s' = ?s' in
               inflight (step Tick s') = inflight s' @ [(requestIdRef s' + 1, v)]
               \<and> inflight (step (Refresh (Some v)) s') = inflight s' @ [(requestIdRef s' + 1, v)]"
    by (simp add: Let_def refresh_issues)
qed

theorem failure_never_escapes_witness:
  "reachable run_polling \<and> (2, ws_A) \<in> set (inflight run_polling)
   \<and> requestIdRef run_polling = 2 \<and> workspaceIdRef run_polling = Some ws_A
   \<and> workspaceId run_polling = Some ws_A \<and> ws_A \<noteq> []
   \<and> snd (settle_refresh 2 ws_A (Rejected (ErrorObject (js ''network down''))) run_polling) = Fulfilled ()
   \<and> error (statusState (step (Settle 2 ws_A (Rejected (ErrorObject (js ''network down'')))) run_polling))
        = Some (js ''network down'')
   \<and> interval (step (Settle 2 ws_A (Rejected (ErrorObject (js ''network down'')))) run_polling) = Some ws_A
   \<and> inflight (step Tick (step (Settle 2 ws_A (Rejected (ErrorObject (js ''network down'')))) run_polling))
        = [(3, ws_A)]"
proof -
  let ?e = "ErrorObject (js ''network down'')"
  have h: "(2, ws_A) \<in> set (inflight run_polling) \<and> requestIdRef run_polling = 2
      \<and> workspaceIdRef run_polling = Some ws_A \<and> workspaceId run_polling = Some ws_A
      \<and> interval run_polling = Some ws_A"
    by (simp add: run_polling_eq)
  have ne: "ws_A \<noteq> []" by (simp add: ws_A_def js_def)
  have s': "inflight (step (Settle 2 ws_A (Rejected ?e)) run_polling) = []
      \<and> requestIdRef (step (Settle 2 ws_A (Rejected ?e)) run_polling) = 2"
    by (simp add: run_polling_eq settle_refresh_Rejected on_rejected_current)
  from failure_never_escapes [OF reachable_run_polling, of 2 ws_A "Rejected ?e" ?e ws_A]
    h ne s' reachable_run_polling
  show ?thesis by (simp add: Let_def)
qed

text \<open>
  C9. In every reachable state each cached snapshot has no error. The rejection
  handler does not write the cache. So when the current request of workspace \<open>w\<close>
  is rejected, the displayed status carries the message, and after the active workspace
  changed to another one and back to \<open>w\<close> the displayed status is the cached
  snapshot again, without the error.
\<close>

theorem cache_never_holds_error:
  assumes "reachable s"
  shows "(\<forall>v c. cachedStatusRef s v = Some c \<longrightarrow> error c = None)
         \<and> cachedStatusRef (on_rejected requestId w err s) = cachedStatusRef s
         \<and> (workspaceId s = Some w \<and> requestIdRef s = requestId \<and> cachedStatusRef s w = Some c \<and> b \<noteq> Some w \<longrightarrow>
              statusState (on_rejected requestId w err s) = c\<lparr>error := Some (error_message err)\<rparr>
              \<and> statusState (render (Some w) (render b (on_rejected requestId w err s))) = c
              \<and> error c = None)"
proof (intro conjI impI allI)
  from assms have ok: "cells_ok s" by (rule reachable_cells_ok)
  { fix v c assume "cachedStatusRef s v = Some c"
    with ok show "error c = None" unfolding cells_ok_def cache_ok_def by blast }
  show "cachedStatusRef (on_rejected requestId w err s) = cachedStatusRef s"
    by (rule cachedStatusRef_on_rejected)
  assume h: "workspaceId s = Some w \<and> requestIdRef s = requestId \<and> cachedStatusRef s w = Some c \<and> b \<noteq> Some w"
  let ?f = "on_rejected requestId w err s"
  from ok h have ref: "workspaceIdRef s = Some w" by (simp add: cells_ok_def)
  with h show "statusState ?f = c\<lparr>error := Some (error_message err)\<rparr>"
    by (simp add: on_rejected_current nextStatus_rejected_def)
  from h ok show "error c = None" unfolding cells_ok_def cache_ok_def by blast
  from ok have okf: "cells_ok ?f" by (rule cells_ok_on_rejected)
  then have ids1: "workspaceIdRef ?f = workspaceId ?f" by (simp add: cells_ok_def)
  from h ref have wf: "workspaceId ?f = Some w" by (simp add: on_rejected_current)
  with h have ne1: "workspaceId ?f \<noteq> b" by auto
  let ?g = "render b ?f"
  from okf have okg: "cells_ok ?g" by (rule cells_ok_render)
  then have ids2: "workspaceIdRef ?g = workspaceId ?g" by (simp add: cells_ok_def)
  have wg: "workspaceId ?g = b" using ids1 ne1 by (rule render_changed(3))
  with h have ne2: "workspaceId ?g \<noteq> Some w" by auto
  from ok h have wne: "w \<noteq> []" unfolding cells_ok_def cache_ok_def by auto
  have "cachedStatusRef ?g w = Some c"
    using h by (simp add: cachedStatusRef_render cachedStatusRef_on_rejected)
  with render_changed(1) [OF ids2 ne2] wne
  show "statusState (render (Some w) ?g) = c" by simp
qed

theorem cache_never_holds_error_witness:
  "reachable run_polling \<and> workspaceId run_polling = Some ws_A \<and> requestIdRef run_polling = 2
   \<and> cachedStatusRef run_polling ws_A = Some snapshot_main
   \<and> Some ws_B \<noteq> Some ws_A
   \<and> error (statusState (on_rejected 2 ws_A (ErrorObject (js ''network down'')) run_polling))
        = Some (js ''network down'')
   \<and> statusState (render (Some ws_A) (render (Some ws_B)
         (on_rejected 2 ws_A (ErrorObject (js ''network down'')) run_polling))) = snapshot_main
   \<and> error snapshot_main = None"
proof -
  have ne: "ws_B \<noteq> ws_A" by (simp add: ws_A_def ws_B_def js_def)
  have h: "workspaceId run_polling = Some ws_A \<and> requestIdRef run_polling = 2
      \<and> cachedStatusRef run_polling ws_A = Some snapshot_main"
    by (simp add: run_polling_eq)
  from cache_never_holds_error [OF reachable_run_polling, of 2 ws_A "ErrorObject (js ''network down'')" snapshot_main "Some ws_B"]
    h ne reachable_run_polling
  show ?thesis by simp
qed

text \<open>
  C10. \<^verbatim>\<open>resolveBranchName\<close> returns the trimmed incoming value, the trimmed
  cached branch name or the empty string, and what it returns has no white space at
  either end. So the branch name displayed and cached after the fulfilment of a current
  request is trimmed.
\<close>

theorem resolved_branch_trimmed:
  "trimmed_string (resolveBranchName incoming cached)
   \<and> ((\<exists>i. incoming = Some i \<and> resolveBranchName incoming cached = trim i)
      \<or> (\<exists>c. cached = Some c \<and> resolveBranchName incoming cached = trim (branchName c))
      \<or> resolveBranchName incoming cached = [])
   \<and> (requestIdRef s = requestId \<and> workspaceIdRef s = Some w \<longrightarrow>
        trimmed_string (branchName (statusState (on_fulfilled requestId w data s)))
        \<and> (\<forall>c. cachedStatusRef (on_fulfilled requestId w data s) w = Some c \<longrightarrow>
               trimmed_string (branchName c)))"
proof (intro conjI impI)
  show "trimmed_string (resolveBranchName incoming cached)"
    by (rule trimmed_string_resolveBranchName)
next
  show "(\<exists>i. incoming = Some i \<and> resolveBranchName incoming cached = trim i)
      \<or> (\<exists>c. cached = Some c \<and> resolveBranchName incoming cached = trim (branchName c))
      \<or> resolveBranchName incoming cached = []"
    by (cases incoming; cases cached) (auto simp add: resolveBranchName_def Let_def)
next
  assume "requestIdRef s = requestId \<and> workspaceIdRef s = Some w"
  then show "trimmed_string (branchName (statusState (on_fulfilled requestId w data s)))"
    by (simp add: on_fulfilled_current nextStatus_fulfilled_simps trimmed_string_resolveBranchName)
next
  assume "requestIdRef s = requestId \<and> workspaceIdRef s = Some w"
  then show "\<forall>c. cachedStatusRef (on_fulfilled requestId w data s) w = Some c \<longrightarrow>
               trimmed_string (branchName c)"
    by (auto simp add: on_fulfilled_current nextStatus_fulfilled_simps trimmed_string_resolveBranchName)
qed

theorem resolved_branch_trimmed_witness:
  "requestIdRef run_mounted = 1 \<and> workspaceIdRef run_mounted = Some ws_A
   \<and> resolveBranchName (Some (js ''  main '')) None = js ''main''
   \<and> branchName (statusState (on_fulfilled 1 ws_A raw_padded run_mounted)) = js ''main''
   \<and> trimmed_string (branchName (statusState (on_fulfilled 1 ws_A raw_padded run_mounted)))
   \<and> cachedStatusRef (on_fulfilled 1 ws_A raw_padded run_mounted) ws_A = Some snapshot_main"
proof -
  have r: "resolveBranchName (Some (js ''  main '')) None = js ''main''"
    by (simp add: resolveBranchName_def Let_def known_branch_def trim_def isWhiteSpace_def
          js_def unknown_def)
  have n: "nextStatus_fulfilled raw_padded None = snapshot_main"
    by (simp add: nextStatus_fulfilled_def r raw_padded_def raw_main_def snapshot_main_def)
  from resolved_branch_trimmed [of "Some (js ''  main '')" None run_mounted 1 ws_A raw_padded] r n
  show ?thesis by (simp add: run_mounted_eq on_fulfilled_current snapshot_main_def)
qed

end
